theory Spec2Isabelle
  imports Main "HOL-Library.AList" "HOL-Library.Char_ord" "HOL-Library.List_Lexorder"
begin

section \<open>JSON documents as Python holds them\<close>

text \<open>
  \<^verbatim>\<open>load_mcode.py\<close> works on the value that \<^verbatim>\<open>json.load\<close> returns: nested Python
  dicts, lists, strings, integers, booleans and \<^verbatim>\<open>None\<close>. A dict keeps its keys in
  insertion order, so it is an association list here; the keys of a dict that came out
  of a JSON text are strings. Two limits of the model: floating-point numbers are left
  out, and a string is a list of code points below 256 (the type \<^typ>\<open>char\<close>).
  A document is a tree: no list or dict object occurs at two places, which is what
  \<^verbatim>\<open>json.load\<close> builds.
\<close>

datatype json =
    JNull
  | JBool bool
  | JInt int
  | JStr string
  | JArr "json list"
  | JObj "(string \<times> json) list"

text \<open>The exceptions that the program can raise, as values.\<close>

datatype error =
    KeyError json
  | TypeError
  | AttributeError
  | IndexError
  | ValueError
  | JSONDecodeError
  | RecursionError
  | OSError
  | Unsupported

text \<open>
  \<open>Unsupported\<close> is not a Python exception: the JSON reader below returns it where
  Python would build a value that the model does not have (a float, a code point above
  255). No text that the program writes leads there.
\<close>

definition and_then :: "error + 'a \<Rightarrow> ('a \<Rightarrow> error + 'b) \<Rightarrow> error + 'b" where
  "and_then m f = (case m of Inl e \<Rightarrow> Inl e | Inr v \<Rightarrow> f v)"

subsection \<open>Python's operations on these values\<close>

text \<open>\<^verbatim>\<open>a == b\<close>: booleans are the integers 0 and 1, dicts compare without order.\<close>

fun py_eq :: "json \<Rightarrow> json \<Rightarrow> bool"
  and py_eq_list :: "json list \<Rightarrow> json list \<Rightarrow> bool"
  and py_eq_items :: "(string \<times> json) list \<Rightarrow> (string \<times> json) list \<Rightarrow> bool" where
  "py_eq JNull b = (b = JNull)"
| "py_eq (JBool x) b =
     (case b of JBool y \<Rightarrow> x = y | JInt j \<Rightarrow> (if x then 1 else 0) = j | _ \<Rightarrow> False)"
| "py_eq (JInt i) b =
     (case b of JBool y \<Rightarrow> i = (if y then 1 else 0) | JInt j \<Rightarrow> i = j | _ \<Rightarrow> False)"
| "py_eq (JStr s) b = (b = JStr s)"
| "py_eq (JArr xs) b = (case b of JArr ys \<Rightarrow> py_eq_list xs ys | _ \<Rightarrow> False)"
| "py_eq (JObj kvs) b =
     (case b of JObj kvs' \<Rightarrow> length kvs = length kvs' \<and> py_eq_items kvs kvs' | _ \<Rightarrow> False)"
| "py_eq_list [] ys = (ys = [])"
| "py_eq_list (x # xs) ys =
     (case ys of [] \<Rightarrow> False | y # ys' \<Rightarrow> py_eq x y \<and> py_eq_list xs ys')"
| "py_eq_items [] kvs' = True"
| "py_eq_items ((k, v) # kvs) kvs' =
     ((case map_of kvs' k of None \<Rightarrow> False | Some v' \<Rightarrow> py_eq v v') \<and> py_eq_items kvs kvs')"

text \<open>\<^verbatim>\<open>x[k]\<close> for a string \<open>k\<close>: only a dict can be indexed by a string.\<close>

fun getitem :: "json \<Rightarrow> string \<Rightarrow> error + json" where
  "getitem (JObj kvs) k =
     (case map_of kvs k of None \<Rightarrow> Inl (KeyError (JStr k)) | Some v \<Rightarrow> Inr v)"
| "getitem _ k = Inl TypeError"

text \<open>
  \<^verbatim>\<open>x[k] = v\<close> for a string \<open>k\<close>: an existing key keeps its place, a new key goes
  to the end.
\<close>

fun setitem :: "json \<Rightarrow> string \<Rightarrow> json \<Rightarrow> error + json" where
  "setitem (JObj kvs) k v = Inr (JObj (AList.update k v kvs))"
| "setitem _ k v = Inl TypeError"

text \<open>\<^verbatim>\<open>x[0]\<close>. No dict of a JSON document has the key 0.\<close>

fun getitem0 :: "json \<Rightarrow> error + json" where
  "getitem0 (JArr xs) = (case xs of [] \<Rightarrow> Inl IndexError | x # _ \<Rightarrow> Inr x)"
| "getitem0 (JStr s) = (case s of [] \<Rightarrow> Inl IndexError | c # _ \<Rightarrow> Inr (JStr [c]))"
| "getitem0 (JObj kvs) = Inl (KeyError (JInt 0))"
| "getitem0 _ = Inl TypeError"

text \<open>
  Iteration, as in \<^verbatim>\<open>for x in obj\<close> and \<^verbatim>\<open>list(obj)\<close>: a list yields its elements,
  a dict its keys, a string its characters.
\<close>

fun py_iter :: "json \<Rightarrow> error + json list" where
  "py_iter (JArr xs) = Inr xs"
| "py_iter (JObj kvs) = Inr (map (\<lambda>kv. JStr (fst kv)) kvs)"
| "py_iter (JStr s) = Inr (map (\<lambda>c. JStr [c]) s)"
| "py_iter _ = Inl TypeError"

text \<open>\<^verbatim>\<open>len(x)\<close>.\<close>

fun py_len :: "json \<Rightarrow> error + nat" where
  "py_len (JArr xs) = Inr (length xs)"
| "py_len (JObj kvs) = Inr (length kvs)"
| "py_len (JStr s) = Inr (length s)"
| "py_len _ = Inl TypeError"

text \<open>\<^verbatim>\<open>k in x.keys()\<close>: only a dict has \<^verbatim>\<open>keys\<close>.\<close>

fun has_key :: "json \<Rightarrow> string \<Rightarrow> error + bool" where
  "has_key (JObj kvs) k = Inr (map_of kvs k \<noteq> None)"
| "has_key _ k = Inl AttributeError"

text \<open>Lists and dicts cannot be dict keys.\<close>

fun hashable :: "json \<Rightarrow> bool" where
  "hashable (JArr xs) = False"
| "hashable (JObj kvs) = False"
| "hashable _ = True"

text \<open>
  \<^verbatim>\<open>d[k] = v\<close> on a dict whose keys are arbitrary hashable values: a key equal to
  \<open>k\<close> keeps its place (and the key object it had) and takes the new value, a new key goes
  to the end.
\<close>

fun dict_setitem :: "(json \<times> 'v) list \<Rightarrow> json \<Rightarrow> 'v \<Rightarrow> (json \<times> 'v) list" where
  "dict_setitem [] k v = [(k, v)]"
| "dict_setitem ((k', v') # kvs) k v =
     (if py_eq k' k then (k', v) # kvs else (k', v') # dict_setitem kvs k v)"

text \<open>\<^verbatim>\<open>xs.remove(x)\<close>: drops the first element equal to \<open>x\<close>.\<close>

fun list_remove :: "json list \<Rightarrow> json \<Rightarrow> error + json list" where
  "list_remove [] x = Inl ValueError"
| "list_remove (y # ys) x =
     (if py_eq y x then Inr ys else and_then (list_remove ys x) (\<lambda>r. Inr (y # r)))"

fun py_remove :: "json \<Rightarrow> json \<Rightarrow> error + json" where
  "py_remove (JArr xs) x = and_then (list_remove xs x) (\<lambda>r. Inr (JArr r))"
| "py_remove _ x = Inl AttributeError"

section \<open>The four transforms of \<^verbatim>\<open>load_mcode.py\<close>\<close>

text \<open>
  Three of the four functions change the dict they are given and return \<^verbatim>\<open>None\<close>. Each
  is modelled by the contents of that dict when the function returns, or by the exception
  it raises. (What a dict holds when a function raises halfway is not modelled: the
  program drops the document then.)
\<close>

subsection \<open>\<^verbatim>\<open>purge_duplicates\<close>\<close>

text \<open>
  The dict comprehension \<^verbatim>\<open>{each['fullUrl']: each for each in entry}\<close>, one element
  at a time: the key is computed, then stored.
\<close>

fun collect_unique :: "json list \<Rightarrow> (json \<times> json) list \<Rightarrow> error + (json \<times> json) list" where
  "collect_unique [] acc = Inr acc"
| "collect_unique (each # rest) acc =
     and_then (getitem each ''fullUrl'') (\<lambda>url.
       if hashable url then collect_unique rest (dict_setitem acc url each)
       else Inl TypeError)"

definition purge_duplicates :: "json \<Rightarrow> error + json" where
  "purge_duplicates d =
     and_then (getitem d ''entry'') (\<lambda>entry.
     and_then (py_iter entry) (\<lambda>items.
     and_then (collect_unique items []) (\<lambda>unique.
     setitem d ''entry'' (JArr (map snd unique)))))"

subsection \<open>\<^verbatim>\<open>remove_provenance\<close>\<close>

text \<open>
  The loop runs over a copy of the list and removes from the list itself; the second
  argument is the list object as it stands.
\<close>

fun remove_loop :: "json list \<Rightarrow> json \<Rightarrow> error + json" where
  "remove_loop [] entry = Inr entry"
| "remove_loop (e # es) entry =
     and_then (getitem e ''resource'') (\<lambda>resource.
     and_then (getitem resource ''resourceType'') (\<lambda>resource_type.
       if py_eq resource_type (JStr ''Provenance'')
       then and_then (py_remove entry e) (remove_loop es)
       else remove_loop es entry))"

definition remove_provenance :: "json \<Rightarrow> error + json" where
  "remove_provenance p =
     and_then (getitem p ''entry'') (\<lambda>entry.
     and_then (py_iter entry) (\<lambda>items.
     and_then (remove_loop items entry) (\<lambda>entry'.
     setitem p ''entry'' entry')))"

subsection \<open>\<^verbatim>\<open>standardize_references\<close>: \<^verbatim>\<open>json.dumps\<close>\<close>

text \<open>
  \<^verbatim>\<open>json.dumps(p)\<close> with its defaults: separators \<^verbatim>\<open>", "\<close> and \<^verbatim>\<open>": "\<close>, and
  \<^verbatim>\<open>ensure_ascii\<close>, so that a character outside the printable ASCII range is written
  as a backslash escape.
\<close>

abbreviation DQ :: char where "DQ \<equiv> CHR 0x22"
abbreviation BS :: char where "BS \<equiv> CHR 0x5C"

definition hex_digit :: "nat \<Rightarrow> char" where
  "hex_digit n = ''0123456789abcdef'' ! n"

definition hex2 :: "nat \<Rightarrow> string" where
  "hex2 n = [hex_digit (n div 16 mod 16), hex_digit (n mod 16)]"

definition hex4 :: "nat \<Rightarrow> string" where
  "hex4 n = hex2 (n div 256) @ hex2 n"

fun digits :: "nat \<Rightarrow> string" where
  "digits n = (if n < 10 then [hex_digit n] else digits (n div 10) @ [hex_digit (n mod 10)])"

definition show_int :: "int \<Rightarrow> string" where
  "show_int i = (if i < 0 then CHR ''-'' # digits (nat (- i)) else digits (nat i))"

definition esc_char :: "char \<Rightarrow> string" where
  "esc_char c =
    (if c = DQ then [BS, DQ]
     else if c = BS then [BS, BS]
     else if c = CHR 0x0A then [BS, CHR ''n'']
     else if c = CHR 0x0D then [BS, CHR ''r'']
     else if c = CHR 0x09 then [BS, CHR ''t'']
     else if c = CHR 0x0C then [BS, CHR ''f'']
     else if c = CHR 0x08 then [BS, CHR ''b'']
     else if 32 \<le> (of_char c :: nat) \<and> (of_char c :: nat) \<le> 126 then [c]
     else BS # CHR ''u'' # hex4 (of_char c))"

definition dumps_string :: "string \<Rightarrow> string" where
  "dumps_string s = DQ # concat (map esc_char s) @ [DQ]"

fun json_dumps :: "json \<Rightarrow> string"
  and dumps_list :: "json list \<Rightarrow> string"
  and dumps_items :: "(string \<times> json) list \<Rightarrow> string" where
  "json_dumps JNull = ''null''"
| "json_dumps (JBool b) = (if b then ''true'' else ''false'')"
| "json_dumps (JInt i) = show_int i"
| "json_dumps (JStr s) = dumps_string s"
| "json_dumps (JArr xs) = ''['' @ dumps_list xs @ '']''"
| "json_dumps (JObj kvs) = ''{'' @ dumps_items kvs @ ''}''"
| "dumps_list [] = []"
| "dumps_list (x # xs) = json_dumps x @ (if xs = [] then [] else '', '' @ dumps_list xs)"
| "dumps_items [] = []"
| "dumps_items ((k, v) # kvs) =
     dumps_string k @ '': '' @ json_dumps v @ (if kvs = [] then [] else '', '' @ dumps_items kvs)"

subsection \<open>\<^verbatim>\<open>standardize_references\<close>: the regular expression\<close>

text \<open>
  The pattern language that \<^verbatim>\<open>REFERENCE_REGEX\<close> needs: a pattern is a sequence of
  character classes, each to be matched once or, greedily, any number of times. The
  matcher backtracks as Python's does: a starred class first takes as many characters as
  it can and gives them back one by one when the rest of the pattern fails. It returns
  the text that each element of the pattern matched, and the rest of the input.
\<close>

type_synonym atom = "(char \<Rightarrow> bool) \<times> bool"

fun rmatch :: "atom list \<Rightarrow> string \<Rightarrow> (string list \<times> string) option" where
  "rmatch [] s = Some ([], s)"
| "rmatch ((P, False) # as) [] = None"
| "rmatch ((P, False) # as) (c # cs) =
     (if P c then (case rmatch as cs of None \<Rightarrow> None | Some (ms, r) \<Rightarrow> Some ([c] # ms, r)) else None)"
| "rmatch ((P, True) # as) [] =
     (case rmatch as [] of None \<Rightarrow> None | Some (ms, r) \<Rightarrow> Some ([] # ms, r))"
| "rmatch ((P, True) # as) (c # cs) =
     (case (if P c then rmatch ((P, True) # as) cs else None) of
        Some (ms, r) \<Rightarrow> Some ((c # hd ms) # tl ms, r)
      | None \<Rightarrow> (case rmatch as (c # cs) of None \<Rightarrow> None | Some (ms, r) \<Rightarrow> Some ([] # ms, r)))"


definition lit :: "char \<Rightarrow> atom" where
  "lit c = ((\<lambda>x. x = c), False)"

definition re_star :: "(char \<Rightarrow> bool) \<Rightarrow> atom list" where
  "re_star P = [(P, True)]"

definition re_plus :: "(char \<Rightarrow> bool) \<Rightarrow> atom list" where
  "re_plus P = [(P, False), (P, True)]"

definition re_times :: "nat \<Rightarrow> (char \<Rightarrow> bool) \<Rightarrow> atom list" where
  "re_times n P = replicate n (P, False)"

definition is_hex :: "char \<Rightarrow> bool" where
  "is_hex c = (c \<in> set ''0123456789abcdef'')"

definition is_space :: "char \<Rightarrow> bool" where
  "is_space c = ((of_char c :: nat) \<in> {9, 10, 11, 12, 13, 28, 29, 30, 31, 32, 133, 160})"

definition is_word :: "char \<Rightarrow> bool" where
  "is_word c = (let n = (of_char c :: nat) in
     (48 \<le> n \<and> n \<le> 57) \<or> (65 \<le> n \<and> n \<le> 90) \<or> n = 95 \<or> (97 \<le> n \<and> n \<le> 122)
     \<or> n \<in> {170, 178, 179, 181, 185, 186, 188, 189, 190}
     \<or> (192 \<le> n \<and> n \<le> 214) \<or> (216 \<le> n \<and> n \<le> 246) \<or> (248 \<le> n \<and> n \<le> 255))"

definition UUID_REGEX :: "atom list" where
  "UUID_REGEX = re_times 8 is_hex @ [lit (CHR ''-'')] @ re_times 4 is_hex @ [lit (CHR ''-'')]
     @ re_times 4 is_hex @ [lit (CHR ''-'')] @ re_times 4 is_hex @ [lit (CHR ''-'')] @ re_times 12 is_hex"

record regex =
  before_group :: "atom list"
  group1 :: "atom list"
  after_group :: "atom list"

definition REFERENCE_REGEX :: regex where
  "REFERENCE_REGEX = \<lparr>
     before_group = map lit (DQ # ''reference'' @ [DQ]) @ re_star is_space @ [lit (CHR '':'')]
        @ re_star is_space @ [lit DQ],
     group1 = re_plus is_word @ [lit (CHR ''/'')],
     after_group = UUID_REGEX @ [lit DQ] \<rparr>"

definition re_match :: "regex \<Rightarrow> string \<Rightarrow> (string \<times> string) option" where
  "re_match re s =
     (case rmatch (before_group re @ group1 re @ after_group re) s of
        None \<Rightarrow> None
      | Some (ms, r) \<Rightarrow>
          Some (concat ms, concat (take (length (group1 re)) (drop (length (before_group re)) ms))))"

fun replace_scan :: "string \<Rightarrow> string \<Rightarrow> string \<Rightarrow> string" where
  "replace_scan old new [] = []"
| "replace_scan old new (c # cs) =
     (if take (length old) (c # cs) = old
      then new @ replace_scan old new (drop (length old - 1) cs)
      else c # replace_scan old new cs)"

definition py_replace :: "string \<Rightarrow> string \<Rightarrow> string \<Rightarrow> string" where
  "py_replace s old new =
     (if old = [] then new @ concat (map (\<lambda>c. c # new) s) else replace_scan old new s)"

definition urnreplc :: "string \<times> string \<Rightarrow> string" where
  "urnreplc obj = py_replace (fst obj) (snd obj) ''urn:uuid:''"

fun re_sub :: "regex \<Rightarrow> (string \<times> string \<Rightarrow> string) \<Rightarrow> string \<Rightarrow> string" where
  "re_sub re repl [] = (case re_match re [] of None \<Rightarrow> [] | Some obj \<Rightarrow> repl obj)"
| "re_sub re repl (c # cs) =
     (case re_match re (c # cs) of
        None \<Rightarrow> c # re_sub re repl cs
      | Some obj \<Rightarrow>
          (if fst obj = [] then repl obj @ c # re_sub re repl cs
           else repl obj @ re_sub re repl (drop (length (fst obj) - 1) cs)))"


subsection \<open>\<^verbatim>\<open>standardize_references\<close>: \<^verbatim>\<open>json.loads\<close>\<close>

text \<open>
  The reader follows Python's decoder: white space is skipped between tokens, strings
  are read in strict mode, a repeated key keeps its first place and its last value. The
  first argument of \<open>scan_once\<close> bounds the number of nested calls; \<open>json_loads\<close>
  starts it above the length of the text, which no run on that text can use up.
\<close>

definition is_ws :: "char \<Rightarrow> bool" where
  "is_ws c = (c = CHR '' '' \<or> c = CHR 0x09 \<or> c = CHR 0x0A \<or> c = CHR 0x0D)"

definition skip_ws :: "string \<Rightarrow> string" where
  "skip_ws s = dropWhile is_ws s"

definition is_digit :: "char \<Rightarrow> bool" where
  "is_digit c = (c \<in> set ''0123456789'')"

definition digit_val :: "char \<Rightarrow> nat" where
  "digit_val c = (of_char c :: nat) - 48"

definition hex_val :: "char \<Rightarrow> nat option" where
  "hex_val c = (let n = (of_char c :: nat) in
     if 48 \<le> n \<and> n \<le> 57 then Some (n - 48)
     else if 97 \<le> n \<and> n \<le> 102 then Some (n - 87)
     else if 65 \<le> n \<and> n \<le> 70 then Some (n - 55)
     else None)"

definition unescape :: "char \<Rightarrow> char option" where
  "unescape e =
     (if e = DQ then Some DQ
      else if e = BS then Some BS
      else if e = CHR ''/'' then Some (CHR ''/'')
      else if e = CHR ''b'' then Some (CHR 0x08)
      else if e = CHR ''f'' then Some (CHR 0x0C)
      else if e = CHR ''n'' then Some (CHR 0x0A)
      else if e = CHR ''r'' then Some (CHR 0x0D)
      else if e = CHR ''t'' then Some (CHR 0x09)
      else None)"

fun scan_string :: "string \<Rightarrow> error + (string \<times> string)" where
  "scan_string [] = Inl JSONDecodeError"
| "scan_string (c # cs) =
     (if c = DQ then Inr ([], cs)
      else if c = BS then
        (case cs of
           [] \<Rightarrow> Inl JSONDecodeError
         | e # cs' \<Rightarrow>
             if e = CHR ''u'' then
               (case cs' of
                  h1 # h2 # h3 # h4 # cs'' \<Rightarrow>
                    (case (hex_val h1, hex_val h2, hex_val h3, hex_val h4) of
                       (Some a, Some b, Some c, Some d) \<Rightarrow>
                         (if a = 0 \<and> b = 0
                          then and_then (scan_string cs'')
                                 (\<lambda>(s, r). Inr (char_of (16 * c + d) # s, r))
                          else Inl Unsupported)
                     | _ \<Rightarrow> Inl JSONDecodeError)
                | _ \<Rightarrow> Inl JSONDecodeError)
             else
               (case unescape e of
                  None \<Rightarrow> Inl JSONDecodeError
                | Some x \<Rightarrow> and_then (scan_string cs') (\<lambda>(s, r). Inr (x # s, r))))
      else if (of_char c :: nat) < 32 then Inl JSONDecodeError
      else and_then (scan_string cs) (\<lambda>(s, r). Inr (c # s, r)))"

definition nat_of_digits :: "string \<Rightarrow> nat" where
  "nat_of_digits ds = foldl (\<lambda>n c. 10 * n + digit_val c) 0 ds"

definition float_follows :: "string \<Rightarrow> bool" where
  "float_follows r =
     (case r of
        [] \<Rightarrow> False
      | c # r' \<Rightarrow>
          if c = CHR ''.'' then (case r' of [] \<Rightarrow> False | d # _ \<Rightarrow> is_digit d)
          else if c = CHR ''e'' \<or> c = CHR ''E'' then
            (case r' of
               [] \<Rightarrow> False
             | d # r'' \<Rightarrow>
                 if d = CHR ''+'' \<or> d = CHR ''-'' then (case r'' of [] \<Rightarrow> False | d' # _ \<Rightarrow> is_digit d')
                 else is_digit d)
          else False)"

definition match_number :: "string \<Rightarrow> (error + (json \<times> string)) option" where
  "match_number s =
     (let neg = (s \<noteq> [] \<and> hd s = CHR ''-'');
          s1 = (if neg then tl s else s);
          ds = (if s1 \<noteq> [] \<and> hd s1 = CHR ''0'' then ''0'' else takeWhile is_digit s1);
          r = drop (length ds) s1
      in if ds = [] then None
         else if float_follows r then Some (Inl Unsupported)
         else Some (Inr (JInt (if neg then - int (nat_of_digits ds) else int (nat_of_digits ds)), r)))"

definition dict_of_pairs :: "(string \<times> json) list \<Rightarrow> (string \<times> json) list" where
  "dict_of_pairs ps = foldl (\<lambda>d kv. AList.update (fst kv) (snd kv) d) [] ps"

definition starts_with :: "string \<Rightarrow> string \<Rightarrow> bool" where
  "starts_with p s = (take (length p) s = p)"

fun scan_once :: "nat \<Rightarrow> string \<Rightarrow> error + (json \<times> string)"
  and parse_array :: "nat \<Rightarrow> json list \<Rightarrow> string \<Rightarrow> error + (json \<times> string)"
  and parse_object :: "nat \<Rightarrow> (string \<times> json) list \<Rightarrow> string \<Rightarrow> error + (json \<times> string)" where
  "scan_once 0 s = Inl RecursionError"
| "scan_once (Suc n) s =
     (case s of
        [] \<Rightarrow> Inl JSONDecodeError
      | c # cs \<Rightarrow>
          if c = DQ then and_then (scan_string cs) (\<lambda>(str, r). Inr (JStr str, r))
          else if c = CHR ''{'' then
            (case skip_ws cs of
               [] \<Rightarrow> Inl JSONDecodeError
             | c' # r \<Rightarrow> if c' = CHR ''}'' then Inr (JObj [], r) else parse_object n [] (c' # r))
          else if c = CHR ''['' then
            (case skip_ws cs of
               [] \<Rightarrow> Inl JSONDecodeError
             | c' # r \<Rightarrow> if c' = CHR '']'' then Inr (JArr [], r) else parse_array n [] (c' # r))
          else if starts_with ''null'' s then Inr (JNull, drop 4 s)
          else if starts_with ''true'' s then Inr (JBool True, drop 4 s)
          else if starts_with ''false'' s then Inr (JBool False, drop 5 s)
          else
            (case match_number s of
               Some res \<Rightarrow> res
             | None \<Rightarrow>
                 if starts_with ''NaN'' s \<or> starts_with ''Infinity'' s \<or> starts_with ''-Infinity'' s
                 then Inl Unsupported
                 else Inl JSONDecodeError))"
| "parse_array 0 acc s = Inl RecursionError"
| "parse_array (Suc n) acc s =
     and_then (scan_once n s) (\<lambda>(v, r).
       case skip_ws r of
         [] \<Rightarrow> Inl JSONDecodeError
       | c # r' \<Rightarrow>
           if c = CHR '','' then parse_array n (acc @ [v]) (skip_ws r')
           else if c = CHR '']'' then Inr (JArr (acc @ [v]), r')
           else Inl JSONDecodeError)"
| "parse_object 0 acc s = Inl RecursionError"
| "parse_object (Suc n) acc s =
     (case s of
        [] \<Rightarrow> Inl JSONDecodeError
      | q # cs \<Rightarrow>
          if q \<noteq> DQ then Inl JSONDecodeError
          else and_then (scan_string cs) (\<lambda>(k, r).
            case skip_ws r of
              [] \<Rightarrow> Inl JSONDecodeError
            | c # r1 \<Rightarrow>
                if c \<noteq> CHR '':'' then Inl JSONDecodeError
                else and_then (scan_once n (skip_ws r1)) (\<lambda>(v, r2).
                  case skip_ws r2 of
                    [] \<Rightarrow> Inl JSONDecodeError
                  | c' # r3 \<Rightarrow>
                      if c' = CHR ''}'' then Inr (JObj (dict_of_pairs (acc @ [(k, v)])), r3)
                      else if c' = CHR '','' then parse_object n (acc @ [(k, v)]) (skip_ws r3)
                      else Inl JSONDecodeError)))"

definition json_loads :: "string \<Rightarrow> error + json" where
  "json_loads s =
     and_then (scan_once (Suc (length s)) (skip_ws s)) (\<lambda>(v, r).
       if skip_ws r = [] then Inr v else Inl JSONDecodeError)"

definition standardize_references :: "json \<Rightarrow> error + json" where
  "standardize_references p = json_loads (re_sub REFERENCE_REGEX urnreplc (json_dumps p))"


subsection \<open>\<^verbatim>\<open>add_if_none_exist_clause\<close>\<close>

text \<open>
  The f-string formats its three values with \<^verbatim>\<open>str\<close>: a string stands for itself, any
  other value for its \<^verbatim>\<open>repr\<close>.
\<close>

definition repr_char :: "char \<Rightarrow> char \<Rightarrow> string" where
  "repr_char q c = (let n = (of_char c :: nat) in
     if c = q \<or> c = BS then [BS, c]
     else if c = CHR 0x09 then [BS, CHR ''t'']
     else if c = CHR 0x0A then [BS, CHR ''n'']
     else if c = CHR 0x0D then [BS, CHR ''r'']
     else if n < 32 \<or> n = 127 \<or> (128 \<le> n \<and> n \<le> 160) \<or> n = 173 then BS # CHR ''x'' # hex2 n
     else [c])"

definition repr_string :: "string \<Rightarrow> string" where
  "repr_string s =
     (let q = (if CHR 0x27 \<in> set s \<and> DQ \<notin> set s then DQ else CHR 0x27)
      in q # concat (map (repr_char q) s) @ [q])"

fun py_repr :: "json \<Rightarrow> string"
  and repr_list :: "json list \<Rightarrow> string"
  and repr_items :: "(string \<times> json) list \<Rightarrow> string" where
  "py_repr JNull = ''None''"
| "py_repr (JBool b) = (if b then ''True'' else ''False'')"
| "py_repr (JInt i) = show_int i"
| "py_repr (JStr s) = repr_string s"
| "py_repr (JArr xs) = ''['' @ repr_list xs @ '']''"
| "py_repr (JObj kvs) = ''{'' @ repr_items kvs @ ''}''"
| "repr_list [] = []"
| "repr_list (x # xs) = py_repr x @ (if xs = [] then [] else '', '' @ repr_list xs)"
| "repr_items [] = []"
| "repr_items ((k, v) # kvs) =
     repr_string k @ '': '' @ py_repr v @ (if kvs = [] then [] else '', '' @ repr_items kvs)"

definition py_str :: "json \<Rightarrow> string" where
  "py_str v = (case v of JStr s \<Rightarrow> s | _ \<Rightarrow> py_repr v)"

definition synthea_system :: string where
  "synthea_system = ''https://github.com/synthetichealth/synthea''"

definition add_clause_entry :: "json \<Rightarrow> error + json" where
  "add_clause_entry e =
     and_then (getitem e ''resource'') (\<lambda>resource.
     and_then (getitem e ''request'') (\<lambda>request.
     and_then (getitem resource ''resourceType'') (\<lambda>resource_type.
     and_then
       (and_then (has_key resource ''identifier'') (\<lambda>present.
          if present
          then and_then (getitem resource ''identifier'') (\<lambda>ids.
               and_then (py_len ids) (\<lambda>n. Inr (0 < n)))
          else Inr False))
       (\<lambda>nonempty.
     and_then
       (if nonempty
        then and_then (getitem resource ''identifier'') (\<lambda>ids.
             and_then (getitem0 ids) (\<lambda>identifier. Inr (identifier, resource)))
        else and_then (getitem resource ''id'') (\<lambda>rid.
             let identifier = JArr [JObj [(''system'', JStr synthea_system), (''value'', rid)]]
             in and_then (setitem resource ''identifier'' identifier) (\<lambda>resource'.
                and_then (getitem0 identifier) (\<lambda>first. Inr (first, resource')))))
       (\<lambda>(identifier, resource').
     and_then (getitem identifier ''system'') (\<lambda>system.
     and_then (getitem identifier ''value'') (\<lambda>value.
     let query_term = py_str resource_type @ ''?identifier='' @ py_str system @ ''|'' @ py_str value
     in and_then (setitem request ''ifNoneExist'' (JStr query_term)) (\<lambda>request'.
        and_then (setitem e ''request'' request') (\<lambda>e'.
        setitem e' ''resource'' resource')))))))))"

fun add_clause_loop :: "json list \<Rightarrow> error + json list" where
  "add_clause_loop [] = Inr []"
| "add_clause_loop (e # es) =
     and_then (add_clause_entry e) (\<lambda>e'.
     and_then (add_clause_loop es) (\<lambda>es'. Inr (e' # es')))"

definition add_if_none_exist_clause :: "json \<Rightarrow> error + json" where
  "add_if_none_exist_clause p =
     and_then (getitem p ''entry'') (\<lambda>entry.
     and_then (py_iter entry) (\<lambda>items.
     and_then (add_clause_loop items) (\<lambda>items'.
     setitem p ''entry'' (case entry of JArr _ \<Rightarrow> JArr items' | _ \<Rightarrow> entry))))"

definition preprocess_payload :: "json \<Rightarrow> error + json" where
  "preprocess_payload payload =
     and_then (purge_duplicates payload) (\<lambda>payload1.
     and_then (remove_provenance payload1) (\<lambda>payload2.
     and_then (standardize_references payload2) (\<lambda>payload3.
     add_if_none_exist_clause payload3)))"

subsection \<open>\<^verbatim>\<open>preprocess_payload\<close> on objects with identity\<close>

text \<open>
  A heap of documents: a reference is a position in the list. \<open>in_place f\<close> is a call of a
  function that changes the object it is given and returns \<^verbatim>\<open>None\<close>; \<open>fresh f\<close> is a
  call of a function that leaves its argument alone and returns a new object.
\<close>

type_synonym ref = nat
type_synonym heap = "json list"

definition in_place :: "(json \<Rightarrow> error + json) \<Rightarrow> ref \<Rightarrow> heap \<Rightarrow> error + heap" where
  "in_place f r h = and_then (f (h ! r)) (\<lambda>v. Inr (h[r := v]))"

definition fresh :: "(json \<Rightarrow> error + json) \<Rightarrow> ref \<Rightarrow> heap \<Rightarrow> error + (heap \<times> ref)" where
  "fresh f r h = and_then (f (h ! r)) (\<lambda>v. Inr (h @ [v], length h))"

text \<open>
  The body of \<^verbatim>\<open>preprocess_payload\<close> with the variable \<^verbatim>\<open>payload\<close> as a reference:
  the third call rebinds it.
\<close>

definition preprocess_payload_heap :: "ref \<Rightarrow> heap \<Rightarrow> error + (heap \<times> ref)" where
  "preprocess_payload_heap payload h =
     and_then (in_place purge_duplicates payload h) (\<lambda>h1.
     and_then (in_place remove_provenance payload h1) (\<lambda>h2.
     and_then (fresh standardize_references payload h2) (\<lambda>(h3, payload').
     and_then (in_place add_if_none_exist_clause payload' h3) (\<lambda>h4.
     Inr (h4, payload')))))"

section \<open>The batch uploader\<close>

text \<open>
  The file system and the server are parameters: \<open>read_json\<close> is \<^verbatim>\<open>open\<close> followed by
  \<^verbatim>\<open>json.load\<close>, and \<open>post\<close> is \<^verbatim>\<open>requests.post\<close> followed by
  \<^verbatim>\<open>raise_for_status\<close> for the payload of one file (\<open>None\<close> when neither raises).
  \<open>RequestException\<close> stands for \<^verbatim>\<open>requests.exceptions.RequestException\<close> and its
  subclasses; the exceptions above are Python's own and none of them is one of these.
  Logging and the progress bar are left out.
\<close>

datatype failure = Raised error | RequestException

type_synonym path = string

record world =
  read_json :: "path \<Rightarrow> error + json"
  post :: "path \<Rightarrow> json \<Rightarrow> failure option"

definition upload_payload :: "world \<Rightarrow> path \<Rightarrow> failure + unit" where
  "upload_payload w payload_file =
     (case read_json w payload_file of
        Inl e \<Rightarrow> Inl (Raised e)
      | Inr payload \<Rightarrow>
          (case preprocess_payload payload of
             Inl e \<Rightarrow> Inl (Raised e)
           | Inr payload' \<Rightarrow>
               (case post w payload_file payload' of None \<Rightarrow> Inr () | Some x \<Rightarrow> Inl x)))"

text \<open>
  What a run leaves behind: the files handed to \<^verbatim>\<open>upload_payload\<close>, in order, the lines
  printed, and the exception that ended the run, if one did.
\<close>

record run =
  uploads :: "path list"
  console :: "string list"
  raised :: "failure option"

text \<open>The loops over the hospital and the practitioner files: no handler.\<close>

fun upload_all :: "world \<Rightarrow> path list \<Rightarrow> run \<Rightarrow> run" where
  "upload_all w [] st = st"
| "upload_all w (payload_file # rest) st =
     (case upload_payload w payload_file of
        Inl e \<Rightarrow> st\<lparr>uploads := uploads st @ [payload_file], raised := Some e\<rparr>
      | Inr _ \<Rightarrow> upload_all w rest (st\<lparr>uploads := uploads st @ [payload_file]\<rparr>))"

text \<open>The loop over the patient files, with its \<^verbatim>\<open>except RequestException\<close>.\<close>

fun upload_patients :: "world \<Rightarrow> path list \<Rightarrow> run \<Rightarrow> run" where
  "upload_patients w [] st = st"
| "upload_patients w (payload_file # rest) st =
     (case upload_payload w payload_file of
        Inl e \<Rightarrow>
          if e = RequestException
          then upload_patients w rest
                 (st\<lparr>uploads := uploads st @ [payload_file],
                     console := console st @ [''Failed: '' @ payload_file]\<rparr>)
          else st\<lparr>uploads := uploads st @ [payload_file], raised := Some e\<rparr>
      | Inr _ \<Rightarrow> upload_patients w rest (st\<lparr>uploads := uploads st @ [payload_file]\<rparr>))"

text \<open>
  \<^verbatim>\<open>main\<close>, given what the two \<^verbatim>\<open>glob\<close> calls and \<^verbatim>\<open>iterdir\<close> return. All paths
  lie in one folder, so sorting them as strings is sorting them as paths.
\<close>

definition patient_payloads :: "path list \<Rightarrow> path list \<Rightarrow> path list \<Rightarrow> path list" where
  "patient_payloads hospital practitioner all_fhir_payloads =
     sort (remdups (filter (\<lambda>f. f \<notin> set hospital \<union> set practitioner) all_fhir_payloads))"

definition main :: "world \<Rightarrow> path list \<Rightarrow> path list \<Rightarrow> path list \<Rightarrow> run" where
  "main w hospital practitioner all_fhir_payloads =
     (let st1 = upload_all w hospital \<lparr>uploads = [], console = [], raised = None\<rparr>
      in if raised st1 \<noteq> None then st1
         else let st2 = upload_all w practitioner st1
              in if raised st2 \<noteq> None then st2
                 else upload_patients w
                        (patient_payloads hospital practitioner all_fhir_payloads) st2)"

section \<open>Notions used to state the properties\<close>

text \<open>
  Python keeps the keys of a dict distinct. A document is well formed when every dict in
  it does.
\<close>

fun well_formed :: "json \<Rightarrow> bool"
  and well_formed_list :: "json list \<Rightarrow> bool"
  and well_formed_items :: "(string \<times> json) list \<Rightarrow> bool" where
  "well_formed (JArr xs) = well_formed_list xs"
| "well_formed (JObj kvs) = (distinct (map fst kvs) \<and> well_formed_items kvs)"
| "well_formed v = True"
| "well_formed_list [] = True"
| "well_formed_list (x # xs) = (well_formed x \<and> well_formed_list xs)"
| "well_formed_items [] = True"
| "well_formed_items ((k, v) # kvs) = (well_formed v \<and> well_formed_items kvs)"

text \<open>
  The elements of a list at the positions where they occur for the first time, in the
  order of these positions.
\<close>

definition first_occurrences :: "'a list \<Rightarrow> 'a list" where
  "first_occurrences xs =
     map (\<lambda>i. xs ! i) (filter (\<lambda>i. xs ! i \<notin> set (take i xs)) [0..<length xs])"

text \<open>The last entry of \<open>es\<close> whose \<^verbatim>\<open>fullUrl\<close> is the string \<open>u\<close>.\<close>

definition kept :: "json list \<Rightarrow> string \<Rightarrow> json" where
  "kept es u = last (filter (\<lambda>e. getitem e ''fullUrl'' = Inr (JStr u)) es)"

text \<open>\<^verbatim>\<open>e['resource']['resourceType']\<close>, and the entries where it is \<^verbatim>\<open>'Provenance'\<close>.\<close>

definition resource_type_of :: "json \<Rightarrow> error + json" where
  "resource_type_of e =
     and_then (getitem e ''resource'') (\<lambda>resource. getitem resource ''resourceType'')"

definition is_provenance :: "json \<Rightarrow> bool" where
  "is_provenance e = (resource_type_of e = Inr (JStr ''Provenance''))"

text \<open>
  Two hashable values are equal in Python exactly when they agree once a boolean is read
  as the integer it is.
\<close>

fun norm_key :: "json \<Rightarrow> json" where
  "norm_key (JBool b) = JInt (if b then 1 else 0)"
| "norm_key k = k"

definition norm_keys :: "(json \<times> 'v) list \<Rightarrow> (json \<times> 'v) list" where
  "norm_keys acc = map (\<lambda>kv. (norm_key (fst kv), snd kv)) acc"

text \<open>
  The dict that \<^verbatim>\<open>purge_duplicates\<close> builds: every key is hashable and equal to the
  \<^verbatim>\<open>fullUrl\<close> of its value.
\<close>

definition url_keyed :: "(json \<times> json) list \<Rightarrow> bool" where
  "url_keyed acc \<longleftrightarrow>
     (\<forall>kv \<in> set acc. hashable (fst kv) \<and>
        (\<exists>k'. getitem (snd kv) ''fullUrl'' = Inr k' \<and> hashable k' \<and>
           norm_key k' = norm_key (fst kv)))"

text \<open>The lines that the patient loop prints for a list of files.\<close>

definition failed_lines :: "world \<Rightarrow> path list \<Rightarrow> string list" where
  "failed_lines w fs =
     map (\<lambda>f. ''Failed: '' @ f) (filter (\<lambda>f. upload_payload w f = Inl RequestException) fs)"

text \<open>
  The string that \<^verbatim>\<open>add_if_none_exist_clause\<close> stores under \<^verbatim>\<open>ifNoneExist\<close>, the
  identifier list it synthesizes, and what every entry has once it has run.
\<close>

definition query_term :: "json \<Rightarrow> json \<Rightarrow> json \<Rightarrow> json" where
  "query_term resource_type system val =
     JStr (py_str resource_type @ ''?identifier='' @ py_str system @ ''|'' @ py_str val)"

definition synthesized :: "json \<Rightarrow> json" where
  "synthesized rid = JArr [JObj [(''system'', JStr synthea_system), (''value'', rid)]]"

definition has_identifier_and_clause :: "json \<Rightarrow> bool" where
  "has_identifier_and_clause e \<longleftrightarrow>
     (\<exists>r ids q s. getitem e ''resource'' = Inr r \<and> getitem r ''identifier'' = Inr (JArr ids) \<and> ids \<noteq> []
          \<and> getitem e ''request'' = Inr q \<and> getitem q ''ifNoneExist'' = Inr (JStr s))"

section \<open>Example runs\<close>

text \<open>
  Two folders with one hospital file and three patient files. In the first the server
  refuses the second patient file; in the second it refuses the first one, and the
  second patient file holds a document without \<^verbatim>\<open>entry\<close>.
\<close>

definition demo_world :: world where
  "demo_world = \<lparr>read_json = (\<lambda>f. Inr (JObj [(''entry'', JArr [])])),
     post = (\<lambda>f payload. if f = ''p2'' then Some RequestException else None)\<rparr>"

definition broken_world :: world where
  "broken_world = \<lparr>read_json = (\<lambda>f. if f = ''p2'' then Inr (JObj []) else Inr (JObj [(''entry'', JArr [])])),
     post = (\<lambda>f payload. if f = ''p1'' then Some RequestException else None)\<rparr>"

section \<open>Basic facts\<close>

lemma and_then_Inl [simp]: "and_then (Inl e) f = Inl e"
  by (simp add: and_then_def)

lemma and_then_Inr [simp]: "and_then (Inr v) f = f v"
  by (simp add: and_then_def)

lemma and_then_eq_Inr: "and_then m f = Inr r \<longleftrightarrow> (\<exists>v. m = Inr v \<and> f v = Inr r)"
  by (cases m) simp_all

lemma first_occurrences_Nil [simp]: "first_occurrences [] = []"
  by (simp add: first_occurrences_def)

lemma first_occurrences_snoc:
  "first_occurrences (xs @ [x]) = (if x \<in> set xs then first_occurrences xs else first_occurrences xs @ [x])"
proof -
  have f: "filter (\<lambda>i. (xs @ [x]) ! i \<notin> set (take i (xs @ [x]))) [0..<length xs]
      = filter (\<lambda>i. xs ! i \<notin> set (take i xs)) [0..<length xs]"
    by (rule filter_cong) (auto simp: nth_append)
  have m: "map (\<lambda>i. (xs @ [x]) ! i) (filter (\<lambda>i. xs ! i \<notin> set (take i xs)) [0..<length xs])
      = map (\<lambda>i. xs ! i) (filter (\<lambda>i. xs ! i \<notin> set (take i xs)) [0..<length xs])"
    by (rule map_cong) (auto simp: nth_append)
  have "first_occurrences (xs @ [x]) =
      map (\<lambda>i. (xs @ [x]) ! i) (filter (\<lambda>i. (xs @ [x]) ! i \<notin> set (take i (xs @ [x]))) [0..<length xs])
      @ (if x \<in> set xs then [] else [x])"
    unfolding first_occurrences_def by simp
  then show ?thesis
    unfolding f m by (simp add: first_occurrences_def)
qed

lemma set_first_occurrences: "set (first_occurrences xs) = set xs"
  by (induction xs rule: rev_induct) (auto simp: first_occurrences_snoc)

lemma distinct_first_occurrences: "distinct (first_occurrences xs)"
  by (induction xs rule: rev_induct) (auto simp: first_occurrences_snoc set_first_occurrences)

lemma kept_has_url:
  assumes "map (\<lambda>e. getitem e ''fullUrl'') es = map (\<lambda>u. Inr (JStr u)) us" "u \<in> set us"
  shows "kept es u \<in> set es \<and> getitem (kept es u) ''fullUrl'' = Inr (JStr u)"
proof -
  let ?P = "\<lambda>e. getitem e ''fullUrl'' = Inr (JStr u)"
  have "Inr (JStr u) \<in> set (map (\<lambda>e. getitem e ''fullUrl'') es)"
    using assms by (simp add: image_iff)
  then have "filter ?P es \<noteq> []"
    by (auto simp: filter_empty_conv)
  then have "last (filter ?P es) \<in> set (filter ?P es)"
    by (rule last_in_set)
  then show ?thesis by (simp add: kept_def)
qed

lemma dict_setitem_str_map:
  "distinct vs \<Longrightarrow>
   dict_setitem (map (\<lambda>v. (JStr v, f v)) vs) (JStr u) e =
     (if u \<in> set vs then map (\<lambda>v. (JStr v, if v = u then e else f v)) vs
      else map (\<lambda>v. (JStr v, f v)) vs @ [(JStr u, e)])"
  by (induction vs) auto

lemma kept_snoc:
  "getitem e ''fullUrl'' = Inr (JStr u) \<Longrightarrow> kept (ps @ [e]) v = (if v = u then e else kept ps v)"
  by (simp add: kept_def)

lemma collect_unique_str:
  "map (\<lambda>e. getitem e ''fullUrl'') rest = map (\<lambda>u. Inr (JStr u)) us \<Longrightarrow>
   map (\<lambda>e. getitem e ''fullUrl'') ps = map (\<lambda>u. Inr (JStr u)) vs \<Longrightarrow>
   collect_unique rest (map (\<lambda>u. (JStr u, kept ps u)) (first_occurrences vs)) =
     Inr (map (\<lambda>u. (JStr u, kept (ps @ rest) u)) (first_occurrences (vs @ us)))"
proof (induction rest arbitrary: ps vs us)
  case Nil
  then show ?case by simp
next
  case (Cons e rest)
  then obtain u us' where us: "us = u # us'" and e: "getitem e ''fullUrl'' = Inr (JStr u)"
    and rest: "map (\<lambda>e. getitem e ''fullUrl'') rest = map (\<lambda>u. Inr (JStr u)) us'"
    by (cases us) auto
  have ps': "map (\<lambda>e. getitem e ''fullUrl'') (ps @ [e]) = map (\<lambda>u. Inr (JStr u)) (vs @ [u])"
    using Cons.prems(2) e by simp
  have step: "dict_setitem (map (\<lambda>u. (JStr u, kept ps u)) (first_occurrences vs)) (JStr u) e =
      map (\<lambda>w. (JStr w, kept (ps @ [e]) w)) (first_occurrences (vs @ [u]))"
    by (simp add: dict_setitem_str_map distinct_first_occurrences set_first_occurrences first_occurrences_snoc kept_snoc [OF e])
  show ?case
    using Cons.IH [OF rest ps'] by (simp add: e us step)
qed

lemma purge_duplicates_str:
  assumes "map_of kvs ''entry'' = Some (JArr es)"
    and "map (\<lambda>e. getitem e ''fullUrl'') es = map (\<lambda>u. Inr (JStr u)) us"
  shows "purge_duplicates (JObj kvs) =
    Inr (JObj (AList.update ''entry'' (JArr (map (kept es) (first_occurrences us))) kvs))"
proof -
  have "collect_unique es [] = Inr (map (\<lambda>u. (JStr u, kept es u)) (first_occurrences us))"
    using collect_unique_str [OF assms(2), of "[]" "[]"] by simp
  then show ?thesis
    using assms(1) by (simp add: purge_duplicates_def comp_def)
qed

lemma py_eq_hashable_sym: "hashable a \<Longrightarrow> hashable b \<Longrightarrow> py_eq a b \<Longrightarrow> py_eq b a"
  by (cases a; cases b) (auto split: if_splits)

lemma py_eq_hashable_trans:
  "hashable a \<Longrightarrow> hashable b \<Longrightarrow> hashable c \<Longrightarrow> py_eq a b \<Longrightarrow> py_eq b c \<Longrightarrow> py_eq a c"
  by (cases a; cases b; cases c) (auto split: if_splits)

lemma py_eq_JStr_right: "py_eq t (JStr s) \<longleftrightarrow> t = JStr s"
  by (cases t) auto

lemma py_eq_items_lookup:
  "py_eq_items kvs kvs' \<Longrightarrow> (k, v) \<in> set kvs \<Longrightarrow> \<exists>v'. map_of kvs' k = Some v' \<and> py_eq v v'"
  by (induction kvs) (auto split: option.splits)

lemma py_eq_getitem:
  assumes "py_eq y x" "getitem y k = Inr v"
  shows "\<exists>v'. getitem x k = Inr v' \<and> py_eq v v'"
proof -
  from assms(2) obtain kvs where y: "y = JObj kvs" and v: "map_of kvs k = Some v"
    by (cases y) (auto split: option.splits)
  from assms(1) y obtain kvs' where x: "x = JObj kvs'" and items: "py_eq_items kvs kvs'"
    by (cases x) auto
  from v have "(k, v) \<in> set kvs" by (rule map_of_SomeD)
  from py_eq_items_lookup [OF items this] show ?thesis by (auto simp: x)
qed

lemma py_eq_resource_type:
  assumes "py_eq y x" "resource_type_of y = Inr t"
  shows "\<exists>t'. resource_type_of x = Inr t' \<and> py_eq t t'"
proof -
  from assms(2) obtain r where r: "getitem y ''resource'' = Inr r" and t: "getitem r ''resourceType'' = Inr t"
    by (auto simp: resource_type_of_def and_then_eq_Inr)
  from py_eq_getitem [OF assms(1) r] obtain r' where r': "getitem x ''resource'' = Inr r'" and rr: "py_eq r r'"
    by blast
  from py_eq_getitem [OF rr t] obtain t' where "getitem r' ''resourceType'' = Inr t'" "py_eq t t'"
    by blast
  with r' show ?thesis by (simp add: resource_type_of_def)
qed

lemma py_eq_refl_aux:
  "well_formed x \<longrightarrow> py_eq x x"
  "well_formed_list xs \<longrightarrow> py_eq_list xs xs"
  "well_formed_items kvs \<longrightarrow> (\<forall>all. distinct (map fst all) \<and> set kvs \<subseteq> set all \<longrightarrow> py_eq_items kvs all)"
  by (induction x and xs and kvs rule: well_formed_well_formed_list_well_formed_items.induct) auto

lemma py_eq_refl: "well_formed x \<Longrightarrow> py_eq x x"
  using py_eq_refl_aux(1) by blast

lemma list_remove_skip:
  assumes "\<forall>y \<in> set np. \<not> py_eq y e" "py_eq e e"
  shows "list_remove (np @ e # rest) e = Inr (np @ rest)"
  using assms by (induction np) auto

lemma not_provenance_not_eq:
  assumes y: "resource_type_of y = Inr t" "t \<noteq> JStr ''Provenance''"
    and e: "is_provenance e"
  shows "\<not> py_eq y e"
proof
  assume "py_eq y e"
  from py_eq_resource_type [OF this y(1)] obtain t' where "resource_type_of e = Inr t'" "py_eq t t'"
    by blast
  with e have "py_eq t (JStr ''Provenance'')" by (simp add: is_provenance_def)
  with y(2) show False by (simp add: py_eq_JStr_right)
qed

lemma remove_loop_filter:
  assumes "\<forall>e \<in> set rest. \<exists>t. resource_type_of e = Inr t"
    and "\<forall>e \<in> set np. \<exists>t. resource_type_of e = Inr t \<and> t \<noteq> JStr ''Provenance''"
    and "well_formed_list rest"
  shows "remove_loop rest (JArr (np @ rest)) = Inr (JArr (np @ filter (\<lambda>e. \<not> is_provenance e) rest))"
  using assms
proof (induction rest arbitrary: np)
  case Nil
  then show ?case by simp
next
  case (Cons e rest)
  from Cons.prems(1) obtain t where t: "resource_type_of e = Inr t" by auto
  then obtain r where r: "getitem e ''resource'' = Inr r" "getitem r ''resourceType'' = Inr t"
    by (auto simp: resource_type_of_def and_then_eq_Inr)
  have wf: "well_formed e" "well_formed_list rest" using Cons.prems(3) by simp_all
  have rest: "\<forall>e \<in> set rest. \<exists>t. resource_type_of e = Inr t" using Cons.prems(1) by simp
  show ?case
  proof (cases "t = JStr ''Provenance''")
    case True
    then have prov: "is_provenance e" using t by (simp add: is_provenance_def)
    have "\<forall>y \<in> set np. \<not> py_eq y e"
      using Cons.prems(2) not_provenance_not_eq [OF _ _ prov] by blast
    then have "list_remove (np @ e # rest) e = Inr (np @ rest)"
      by (rule list_remove_skip) (rule py_eq_refl [OF wf(1)])
    then show ?thesis
      using Cons.IH [OF rest Cons.prems(2) wf(2)] r True prov by (simp add: py_eq_JStr_right)
  next
    case False
    then have nprov: "\<not> is_provenance e" using t by (simp add: is_provenance_def)
    have np': "\<forall>e \<in> set (np @ [e]). \<exists>t. resource_type_of e = Inr t \<and> t \<noteq> JStr ''Provenance''"
      using Cons.prems(2) t False by auto
    show ?thesis
      using Cons.IH [OF rest np' wf(2)] r False nprov by (simp add: py_eq_JStr_right)
  qed
qed

lemma well_formed_list_iff: "well_formed_list xs \<longleftrightarrow> (\<forall>x \<in> set xs. well_formed x)"
  by (induction xs) auto

lemma well_formed_items_iff: "well_formed_items kvs \<longleftrightarrow> (\<forall>kv \<in> set kvs. well_formed (snd kv))"
  by (induction kvs) auto

lemma well_formed_lookup:
  "well_formed (JObj kvs) \<Longrightarrow> map_of kvs k = Some v \<Longrightarrow> well_formed v"
  by (auto simp: well_formed_items_iff dest!: map_of_SomeD)

lemma remove_provenance_filter:
  assumes "well_formed (JObj kvs)"
    and "map_of kvs ''entry'' = Some (JArr es)"
    and "\<forall>e \<in> set es. \<exists>t. resource_type_of e = Inr t"
  shows "remove_provenance (JObj kvs) =
     Inr (JObj (AList.update ''entry'' (JArr (filter (\<lambda>e. \<not> is_provenance e) es)) kvs))"
proof -
  have "well_formed (JArr es)" using well_formed_lookup [OF assms(1,2)] .
  then have "remove_loop es (JArr ([] @ es)) = Inr (JArr ([] @ filter (\<lambda>e. \<not> is_provenance e) es))"
    using assms(3) by (intro remove_loop_filter) simp_all
  then show ?thesis using assms(2) by (simp add: remove_provenance_def)
qed

lemma py_eq_norm_key: "hashable a \<Longrightarrow> hashable b \<Longrightarrow> py_eq a b \<longleftrightarrow> norm_key a = norm_key b"
  by (cases a; cases b) (auto split: if_splits)

lemma norm_keys_dict_setitem:
  "\<forall>kv \<in> set acc. hashable (fst kv) \<Longrightarrow> hashable k \<Longrightarrow>
   norm_keys (dict_setitem acc k v) = AList.update (norm_key k) v (norm_keys acc)"
  by (induction acc) (auto simp: norm_keys_def py_eq_norm_key)

lemma update_fresh: "k \<notin> fst ` set al \<Longrightarrow> AList.update k v al = al @ [(k, v)]"
  by (induction al) auto

lemma hashable_dict_setitem:
  "\<forall>kv \<in> set acc. hashable (fst kv) \<Longrightarrow> hashable k \<Longrightarrow>
   \<forall>kv \<in> set (dict_setitem acc k v). hashable (fst kv)"
proof (induction acc)
  case Nil
  then show ?case by simp
next
  case (Cons kv acc)
  then have IH: "\<forall>kv \<in> set (dict_setitem acc k v). hashable (fst kv)" by simp
  obtain k0 v0 where kv: "kv = (k0, v0)" by (cases kv)
  show ?case using IH Cons.prems by (simp add: kv)
qed

lemma url_keyed_Cons:
  "url_keyed ((k, v) # acc) \<longleftrightarrow>
     hashable k \<and> (\<exists>k'. getitem v ''fullUrl'' = Inr k' \<and> hashable k' \<and> norm_key k' = norm_key k) \<and> url_keyed acc"
  by (simp add: url_keyed_def)

lemma url_keyed_Nil: "url_keyed []"
  by (simp add: url_keyed_def)

lemma url_keyed_dict_setitem:
  "url_keyed acc \<Longrightarrow> hashable k \<Longrightarrow> getitem v ''fullUrl'' = Inr k \<Longrightarrow> url_keyed (dict_setitem acc k v)"
proof (induction acc)
  case Nil
  then show ?case by (simp add: url_keyed_Cons url_keyed_Nil)
next
  case (Cons kv acc)
  obtain k0 v0 where kv: "kv = (k0, v0)" by (cases kv)
  have h0: "hashable k0" and acc: "url_keyed acc"
    using Cons.prems(1) by (simp_all add: url_keyed_Cons kv)
  have IH: "url_keyed (dict_setitem acc k v)"
    using Cons.IH [OF acc Cons.prems(2,3)] .
  show ?case
  proof (cases "py_eq k0 k")
    case True
    have "norm_key k = norm_key k0"
      using True h0 Cons.prems(2) py_eq_norm_key by metis
    then have "url_keyed ((k0, v) # acc)"
      unfolding url_keyed_Cons using h0 acc Cons.prems(2,3) by blast
    then show ?thesis using True by (simp add: kv)
  next
    case False
    have "url_keyed ((k0, v0) # dict_setitem acc k v)"
      using Cons.prems(1) IH unfolding url_keyed_Cons kv by blast
    then show ?thesis using False by (simp add: kv)
  qed
qed

lemma collect_unique_invariant:
  "collect_unique items acc = Inr r \<Longrightarrow> url_keyed acc \<Longrightarrow> distinct (map fst (norm_keys acc)) \<Longrightarrow>
   url_keyed r \<and> distinct (map fst (norm_keys r))"
proof (induction items arbitrary: acc)
  case Nil
  then show ?case by simp
next
  case (Cons e items)
  from Cons.prems(1) obtain k where k: "getitem e ''fullUrl'' = Inr k" "hashable k"
    and rest: "collect_unique items (dict_setitem acc k e) = Inr r"
    by (auto simp: and_then_eq_Inr split: if_splits)
  have hk: "\<forall>kv \<in> set acc. hashable (fst kv)" using Cons.prems(2) unfolding url_keyed_def by blast
  have "distinct (map fst (norm_keys (dict_setitem acc k e)))"
    using Cons.prems(3) by (simp add: norm_keys_dict_setitem [OF hk k(2)] distinct_update)
  with Cons.IH [OF rest url_keyed_dict_setitem [OF Cons.prems(2) k(2) k(1)]] show ?case by simp
qed

lemma collect_unique_again:
  "url_keyed b \<Longrightarrow> distinct (map fst (norm_keys a) @ map fst (norm_keys b)) \<Longrightarrow>
   \<forall>kv \<in> set a'. hashable (fst kv) \<Longrightarrow> norm_keys a' = norm_keys a \<Longrightarrow>
   \<exists>r'. collect_unique (map snd b) a' = Inr r' \<and> norm_keys r' = norm_keys (a @ b)"
proof (induction b arbitrary: a a')
  case Nil
  then show ?case by simp
next
  case (Cons kv b)
  obtain k v where kv: "kv = (k, v)" by (cases kv)
  from Cons.prems(1) obtain k' where k': "getitem v ''fullUrl'' = Inr k'" "hashable k'" "norm_key k' = norm_key k"
    unfolding kv url_keyed_Cons by blast
  have "distinct (map fst (norm_keys a) @ norm_key k # map fst (norm_keys b))"
    using Cons.prems(2) by (simp add: kv norm_keys_def)
  then have "norm_key k \<notin> set (map fst (norm_keys a))"
    by simp
  then have fresh: "norm_key k \<notin> fst ` set (norm_keys a)"
    by simp
  have step: "norm_keys (dict_setitem a' k' v) = norm_keys (a @ [(k, v)])"
    using update_fresh [OF fresh]
    by (simp add: norm_keys_dict_setitem [OF Cons.prems(3) k'(2)] Cons.prems(4) k'(3)) (simp add: norm_keys_def)
  have hk: "\<forall>kv \<in> set (dict_setitem a' k' v). hashable (fst kv)"
    using Cons.prems(3) k'(2) by (rule hashable_dict_setitem)
  have b: "url_keyed b" using Cons.prems(1) unfolding kv url_keyed_Cons by blast
  have d: "distinct (map fst (norm_keys (a @ [(k, v)])) @ map fst (norm_keys b))"
    using Cons.prems(2) by (simp add: kv norm_keys_def)
  from Cons.IH [OF b d hk step] show ?case
    using k' by (simp add: kv)
qed

lemma map_snd_norm_keys [simp]: "map snd (norm_keys acc) = map snd acc"
  by (simp add: norm_keys_def comp_def)

lemma purge_duplicates_twice:
  assumes "purge_duplicates d = Inr d'"
  shows "purge_duplicates d' = Inr d'"
proof -
  from assms obtain entry items r where
    entry: "getitem d ''entry'' = Inr entry" and items: "py_iter entry = Inr items"
    and r: "collect_unique items [] = Inr r" and d': "setitem d ''entry'' (JArr (map snd r)) = Inr d'"
    by (auto simp: purge_duplicates_def and_then_eq_Inr)
  from entry obtain kvs where d: "d = JObj kvs" by (cases d) auto
  have d'_eq: "d' = JObj (AList.update ''entry'' (JArr (map snd r)) kvs)" using d' d by simp
  have inv: "url_keyed r \<and> distinct (map fst (norm_keys r))"
    using collect_unique_invariant [OF r url_keyed_Nil] by (simp add: norm_keys_def)
  then obtain r' where r': "collect_unique (map snd r) [] = Inr r'" "norm_keys r' = norm_keys ([] @ r)"
    using collect_unique_again [of r "[]" "[]"] by (auto simp: norm_keys_def)
  have "map snd r' = map snd r"
    using arg_cong [OF r'(2), of "map snd"] by simp
  then show ?thesis
    using r'(1) by (simp add: purge_duplicates_def d'_eq update_conv')
qed

lemma lookup_eq_Inr [simp]:
  "(case map_of kvs k of None \<Rightarrow> Inl (KeyError (JStr k)) | Some x \<Rightarrow> Inr x) = Inr v
     \<longleftrightarrow> map_of kvs k = Some v"
  by (cases "map_of kvs k") auto

lemma setitem_eq_Inr: "setitem x k v = Inr y \<longleftrightarrow> (\<exists>kvs. x = JObj kvs \<and> y = JObj (AList.update k v kvs))"
  by (cases x) auto

lemma getitem_eq_Inr: "getitem x k = Inr v \<longleftrightarrow> (\<exists>kvs. x = JObj kvs \<and> map_of kvs k = Some v)"
  by (cases x) (auto split: option.splits)

lemma getitem0_then_getitem:
  assumes "py_len ids = Inr n" "0 < n" "getitem0 ids = Inr first" "getitem first k = Inr v"
  shows "\<exists>others. ids = JArr (first # others)"
proof (cases ids)
  case (JArr xs)
  then show ?thesis using assms(3) by (cases xs) auto
next
  case (JStr str)
  then show ?thesis using assms(3,4) by (cases str) auto
qed (use assms in auto)


section \<open>The batch uploader\<close>

lemma upload_all_ok:
  "\<forall>f \<in> set fs. upload_payload w f = Inr () \<Longrightarrow>
   upload_all w fs st = st\<lparr>uploads := uploads st @ fs\<rparr>"
  by (induction fs arbitrary: st) simp_all

lemma upload_all_raises:
  "\<forall>g \<in> set pre. upload_payload w g = Inr () \<Longrightarrow> upload_payload w f = Inl e \<Longrightarrow>
   upload_all w (pre @ f # later) st = st\<lparr>uploads := uploads st @ pre @ [f], raised := Some e\<rparr>"
  by (induction pre arbitrary: st) simp_all

lemma failed_lines_Nil [simp]: "failed_lines w [] = []"
  by (simp add: failed_lines_def)

lemma failed_lines_Cons:
  "failed_lines w (f # fs) =
     (if upload_payload w f = Inl RequestException then [''Failed: '' @ f] else []) @ failed_lines w fs"
  by (simp add: failed_lines_def)

lemma upload_patients_tolerant:
  "\<forall>f \<in> set fs. upload_payload w f = Inr () \<or> upload_payload w f = Inl RequestException \<Longrightarrow>
   upload_patients w fs st =
     st\<lparr>uploads := uploads st @ fs, console := console st @ failed_lines w fs\<rparr>"
proof (induction fs arbitrary: st)
  case Nil
  then show ?case by simp
next
  case (Cons f fs)
  then have rest: "\<forall>f \<in> set fs. upload_payload w f = Inr () \<or> upload_payload w f = Inl RequestException"
    by simp
  from Cons.prems have "upload_payload w f = Inr () \<or> upload_payload w f = Inl RequestException"
    by simp
  then show ?case
  proof
    assume "upload_payload w f = Inr ()"
    then show ?thesis using Cons.IH [OF rest] by (simp add: failed_lines_Cons)
  next
    assume "upload_payload w f = Inl RequestException"
    then show ?thesis using Cons.IH [OF rest] by (simp add: failed_lines_Cons)
  qed
qed

lemma upload_patients_raises:
  assumes "\<forall>g \<in> set pre. upload_payload w g = Inr () \<or> upload_payload w g = Inl RequestException"
    and "upload_payload w f = Inl e" "e \<noteq> RequestException"
  shows "upload_patients w (pre @ f # later) st =
     st\<lparr>uploads := uploads st @ pre @ [f], console := console st @ failed_lines w pre, raised := Some e\<rparr>"
  using assms(1)
proof (induction pre arbitrary: st)
  case Nil
  then show ?case using assms(2,3) by simp
next
  case (Cons g pre)
  then have rest: "\<forall>g \<in> set pre. upload_payload w g = Inr () \<or> upload_payload w g = Inl RequestException"
    by simp
  from Cons.prems have "upload_payload w g = Inr () \<or> upload_payload w g = Inl RequestException"
    by simp
  then show ?case
  proof
    assume "upload_payload w g = Inr ()"
    then show ?thesis using Cons.IH [OF rest] by (simp add: failed_lines_Cons)
  next
    assume "upload_payload w g = Inl RequestException"
    then show ?thesis using Cons.IH [OF rest] by (simp add: failed_lines_Cons)
  qed
qed

lemma preprocess_empty_bundle:
  "preprocess_payload (JObj [(''entry'', JArr [])]) = Inr (JObj [(''entry'', JArr [])])"
  by code_simp

lemma patient_payloads_demo: "patient_payloads [''h''] [] [''p3'', ''h'', ''p1'', ''p2''] = [''p1'', ''p2'', ''p3'']"
  by code_simp

lemma missing_entry_raises:
  "map_of kvs ''entry'' = None \<Longrightarrow> preprocess_payload (JObj kvs) = Inl (KeyError (JStr ''entry''))"
  by (simp add: preprocess_payload_def purge_duplicates_def)


section \<open>Calls on the heap\<close>

lemma in_place_eq_Inr:
  "in_place f r h = Inr h' \<longleftrightarrow> (\<exists>v. f (h ! r) = Inr v \<and> h' = h[r := v])"
  by (auto simp: in_place_def and_then_eq_Inr)

lemma fresh_eq_Inr:
  "fresh f r h = Inr (h', r') \<longleftrightarrow> (\<exists>v. f (h ! r) = Inr v \<and> h' = h @ [v] \<and> r' = length h)"
  by (auto simp: fresh_def and_then_eq_Inr)


section \<open>\<^verbatim>\<open>add_if_none_exist_clause\<close>\<close>

lemma add_clause_entry_synthesize:
  assumes "map_of ekvs ''resource'' = Some (JObj rkvs)"
    and "map_of ekvs ''request'' = Some (JObj qkvs)"
    and "map_of rkvs ''resourceType'' = Some rt"
    and "map_of rkvs ''id'' = Some rid"
    and "map_of rkvs ''identifier'' = None \<or> (\<exists>ids. map_of rkvs ''identifier'' = Some ids \<and> py_len ids = Inr 0)"
  shows "add_clause_entry (JObj ekvs) =
     Inr (JObj (AList.update ''resource'' (JObj (AList.update ''identifier'' (synthesized rid) rkvs))
          (AList.update ''request''
             (JObj (AList.update ''ifNoneExist'' (query_term rt (JStr synthea_system) rid) qkvs)) ekvs)))"
  using assms
  by (auto simp: add_clause_entry_def Let_def query_term_def synthesized_def)

lemma add_clause_entry_existing:
  assumes "map_of ekvs ''resource'' = Some (JObj rkvs)"
    and "map_of ekvs ''request'' = Some (JObj qkvs)"
    and "map_of rkvs ''resourceType'' = Some rt"
    and "map_of rkvs ''identifier'' = Some (JArr (first # others))"
    and "getitem first ''system'' = Inr sys"
    and "getitem first ''value'' = Inr val"
  shows "add_clause_entry (JObj ekvs) =
     Inr (JObj (AList.update ''request''
             (JObj (AList.update ''ifNoneExist'' (query_term rt sys val) qkvs)) ekvs))"
proof -
  have "map_of (AList.update ''request'' (JObj (AList.update ''ifNoneExist'' (query_term rt sys val) qkvs)) ekvs)
      ''resource'' = Some (JObj rkvs)"
    using assms(1) by (simp add: update_conv')
  then have "AList.update ''resource'' (JObj rkvs)
      (AList.update ''request'' (JObj (AList.update ''ifNoneExist'' (query_term rt sys val) qkvs)) ekvs)
     = AList.update ''request'' (JObj (AList.update ''ifNoneExist'' (query_term rt sys val) qkvs)) ekvs"
    by (rule update_triv)
  then show ?thesis
    using assms by (simp add: add_clause_entry_def Let_def query_term_def)
qed


lemma add_clause_entry_cases:
  assumes "add_clause_entry e = Inr e'"
  shows "\<exists>ekvs rkvs qkvs rt. e = JObj ekvs \<and> map_of ekvs ''resource'' = Some (JObj rkvs)
     \<and> map_of ekvs ''request'' = Some (JObj qkvs) \<and> map_of rkvs ''resourceType'' = Some rt
     \<and> ((\<exists>rid. map_of rkvs ''id'' = Some rid \<and>
            (map_of rkvs ''identifier'' = None \<or>
             (\<exists>ids. map_of rkvs ''identifier'' = Some ids \<and> py_len ids = Inr 0)))
        \<or> (\<exists>first others sys val. map_of rkvs ''identifier'' = Some (JArr (first # others))
            \<and> getitem first ''system'' = Inr sys \<and> getitem first ''value'' = Inr val))"
proof -
  from assms obtain resource request rt nonempty ident resource' sys val request' where
    res: "getitem e ''resource'' = Inr resource" and req: "getitem e ''request'' = Inr request"
    and rt: "getitem resource ''resourceType'' = Inr rt"
    and ne: "and_then (has_key resource ''identifier'') (\<lambda>present.
          if present
          then and_then (getitem resource ''identifier'') (\<lambda>ids.
               and_then (py_len ids) (\<lambda>n. Inr (0 < n)))
          else Inr False) = Inr nonempty"
    and br: "(if nonempty
        then and_then (getitem resource ''identifier'') (\<lambda>ids.
             and_then (getitem0 ids) (\<lambda>identifier. Inr (identifier, resource)))
        else and_then (getitem resource ''id'') (\<lambda>rid.
             let identifier = JArr [JObj [(''system'', JStr synthea_system), (''value'', rid)]]
             in and_then (setitem resource ''identifier'' identifier) (\<lambda>resource'.
                and_then (getitem0 identifier) (\<lambda>first. Inr (first, resource'))))) = Inr (ident, resource')"
    and sys: "getitem ident ''system'' = Inr sys" and val: "getitem ident ''value'' = Inr val"
    and sreq: "setitem request ''ifNoneExist'' (JStr (py_str rt @ ''?identifier='' @ py_str sys @ ''|'' @ py_str val)) = Inr request'"
    unfolding add_clause_entry_def Let_def
    by (auto simp: and_then_eq_Inr split: prod.splits)
  from res obtain ekvs where e: "e = JObj ekvs" "map_of ekvs ''resource'' = Some resource"
    by (auto simp: getitem_eq_Inr)
  from req e have q: "map_of ekvs ''request'' = Some request" by (auto split: option.splits)
  from rt obtain rkvs where r: "resource = JObj rkvs" "map_of rkvs ''resourceType'' = Some rt"
    by (auto simp: getitem_eq_Inr)
  from sreq obtain qkvs where qk: "request = JObj qkvs" by (auto simp: setitem_eq_Inr)
  show ?thesis
  proof (cases nonempty)
    case True
    with ne r obtain ids n where ids: "map_of rkvs ''identifier'' = Some ids" "py_len ids = Inr n" "0 < n"
      by (auto simp: and_then_eq_Inr split: if_splits)
    from br True r ids have first: "getitem0 ids = Inr ident"
      by (auto simp: and_then_eq_Inr)
    from getitem0_then_getitem [OF ids(2,3) first sys] obtain others where "ids = JArr (ident # others)"
      by blast
    with ids e q r qk sys val show ?thesis by blast
  next
    case False
    with br r obtain rid where rid: "map_of rkvs ''id'' = Some rid"
      by (auto simp: and_then_eq_Inr Let_def getitem_eq_Inr)
    from ne r False have "map_of rkvs ''identifier'' = None \<or>
             (\<exists>ids. map_of rkvs ''identifier'' = Some ids \<and> py_len ids = Inr 0)"
      by (auto simp: and_then_eq_Inr split: if_splits)
    with rid e q r qk show ?thesis by blast
  qed
qed

lemma add_clause_entry_twice:
  assumes "add_clause_entry e = Inr e'"
  shows "add_clause_entry e' = Inr e'
     \<and> (\<exists>r ids q s. getitem e' ''resource'' = Inr r \<and> getitem r ''identifier'' = Inr (JArr ids) \<and> ids \<noteq> []
          \<and> getitem e' ''request'' = Inr q \<and> getitem q ''ifNoneExist'' = Inr (JStr s))"
proof -
  from add_clause_entry_cases [OF assms] obtain ekvs rkvs qkvs rt where
    e: "e = JObj ekvs" and res: "map_of ekvs ''resource'' = Some (JObj rkvs)"
    and req: "map_of ekvs ''request'' = Some (JObj qkvs)" and rt: "map_of rkvs ''resourceType'' = Some rt"
    and alt: "(\<exists>rid. map_of rkvs ''id'' = Some rid \<and>
            (map_of rkvs ''identifier'' = None \<or>
             (\<exists>ids. map_of rkvs ''identifier'' = Some ids \<and> py_len ids = Inr 0)))
        \<or> (\<exists>first others sys val. map_of rkvs ''identifier'' = Some (JArr (first # others))
            \<and> getitem first ''system'' = Inr sys \<and> getitem first ''value'' = Inr val)"
    by blast
  from alt show ?thesis
  proof
    assume "\<exists>rid. map_of rkvs ''id'' = Some rid \<and>
            (map_of rkvs ''identifier'' = None \<or>
             (\<exists>ids. map_of rkvs ''identifier'' = Some ids \<and> py_len ids = Inr 0))"
    then obtain rid where rid: "map_of rkvs ''id'' = Some rid"
      and none: "map_of rkvs ''identifier'' = None \<or>
             (\<exists>ids. map_of rkvs ''identifier'' = Some ids \<and> py_len ids = Inr 0)"
      by blast
    let ?q = "query_term rt (JStr synthea_system) rid"
    let ?rk = "AList.update ''identifier'' (synthesized rid) rkvs"
    let ?qk = "AList.update ''ifNoneExist'' ?q qkvs"
    let ?ek = "AList.update ''resource'' (JObj ?rk) (AList.update ''request'' (JObj ?qk) ekvs)"
    have e': "e' = JObj ?ek"
      using add_clause_entry_synthesize [OF res req rt rid none] assms e by simp
    have 1: "map_of ?ek ''resource'' = Some (JObj ?rk)" by (simp add: update_conv')
    have 2: "map_of ?ek ''request'' = Some (JObj ?qk)" by (simp add: update_conv')
    have 3: "map_of ?rk ''resourceType'' = Some rt" using rt by (simp add: update_conv')
    have 4: "map_of ?rk ''identifier'' = Some (JArr (JObj [(''system'', JStr synthea_system), (''value'', rid)] # []))"
      by (simp add: update_conv' synthesized_def)
    have 5: "getitem (JObj [(''system'', JStr synthea_system), (''value'', rid)]) ''system'' = Inr (JStr synthea_system)"
      by simp
    have 6: "getitem (JObj [(''system'', JStr synthea_system), (''value'', rid)]) ''value'' = Inr rid"
      by simp
    have "AList.update ''request'' (JObj (AList.update ''ifNoneExist'' ?q ?qk)) ?ek = ?ek"
      using 2 by (simp add: update_triv)
    then have "add_clause_entry e' = Inr e'"
      using add_clause_entry_existing [OF 1 2 3 4 5 6] by (simp add: e')
    then show ?thesis
      using 1 2 4 by (auto simp: e' update_conv' query_term_def simp del: map_of_eq_Some_iff)
  next
    assume "\<exists>first others sys val. map_of rkvs ''identifier'' = Some (JArr (first # others))
            \<and> getitem first ''system'' = Inr sys \<and> getitem first ''value'' = Inr val"
    then obtain first others sys val where ids: "map_of rkvs ''identifier'' = Some (JArr (first # others))"
      and sys: "getitem first ''system'' = Inr sys" and val: "getitem first ''value'' = Inr val"
      by blast
    let ?q = "query_term rt sys val"
    let ?qk = "AList.update ''ifNoneExist'' ?q qkvs"
    let ?ek = "AList.update ''request'' (JObj ?qk) ekvs"
    have e': "e' = JObj ?ek"
      using add_clause_entry_existing [OF res req rt ids sys val] assms e by simp
    have 1: "map_of ?ek ''resource'' = Some (JObj rkvs)" using res by (simp add: update_conv')
    have 2: "map_of ?ek ''request'' = Some (JObj ?qk)" by (simp add: update_conv')
    have "AList.update ''request'' (JObj (AList.update ''ifNoneExist'' ?q ?qk)) ?ek = ?ek"
      using 2 by (simp add: update_triv)
    then have "add_clause_entry e' = Inr e'"
      using add_clause_entry_existing [OF 1 2 rt ids sys val] by (simp add: e')
    then show ?thesis
      using 1 2 ids by (auto simp: e' update_conv' query_term_def simp del: map_of_eq_Some_iff)
  qed
qed


lemma add_clause_loop_eq_Inr:
  "add_clause_loop es = Inr es' \<longleftrightarrow> list_all2 (\<lambda>e e'. add_clause_entry e = Inr e') es es'"
proof (induction es arbitrary: es')
  case Nil
  then show ?case by auto
next
  case (Cons e es)
  show ?case
    by (cases es') (auto simp: and_then_eq_Inr Cons.IH)
qed

lemma add_clause_loop_twice:
  "add_clause_loop es = Inr es' \<Longrightarrow> add_clause_loop es' = Inr es'"
  unfolding add_clause_loop_eq_Inr
  by (induction es es' rule: list_all2_induct) (auto simp: add_clause_entry_twice)

lemma add_clause_entry_not_string: "add_clause_entry (JStr s) \<noteq> Inr e'"
  by (simp add: add_clause_entry_def)

lemma add_clause_loop_strings:
  assumes "add_clause_loop (map f xs) = Inr items'" and "\<forall>x. \<exists>s. f x = JStr s"
  shows "xs = [] \<and> items' = []"
proof (cases xs)
  case Nil
  then show ?thesis using assms(1) by simp
next
  case (Cons x xs')
  from assms(2) obtain s where "f x = JStr s" by blast
  with assms(1) Cons show ?thesis
    by (auto simp: and_then_eq_Inr add_clause_entry_not_string)
qed

lemma add_if_none_exist_clause_twice:
  assumes "add_if_none_exist_clause p = Inr p'"
  shows "add_if_none_exist_clause p' = Inr p'"
proof -
  from assms obtain entry items items' where
    entry: "getitem p ''entry'' = Inr entry" and items: "py_iter entry = Inr items"
    and loop: "add_clause_loop items = Inr items'"
    and p': "setitem p ''entry'' (case entry of JArr _ \<Rightarrow> JArr items' | _ \<Rightarrow> entry) = Inr p'"
    by (auto simp: add_if_none_exist_clause_def and_then_eq_Inr)
  from entry obtain kvs where p: "p = JObj kvs" and kvs: "map_of kvs ''entry'' = Some entry"
    by (auto simp: getitem_eq_Inr)
  show ?thesis
  proof (cases entry)
    case (JArr es)
    with items have "items = es" by simp
    with p' p JArr have p'_eq: "p' = JObj (AList.update ''entry'' (JArr items') kvs)" by simp
    show ?thesis
      using add_clause_loop_twice [OF loop]
      by (simp add: p'_eq add_if_none_exist_clause_def update_conv')
  next
    case (JObj ks)
    with items loop have "ks = []"
      using add_clause_loop_strings [of "\<lambda>kv. JStr (fst kv)" ks items'] by auto
    with p' p JObj kvs have "p' = p" by (simp add: update_triv)
    with assms show ?thesis by simp
  next
    case (JStr str)
    with items loop have "str = []"
      using add_clause_loop_strings [of "\<lambda>c. JStr [c]" str items'] by auto
    with p' p JStr kvs have "p' = p" by (simp add: update_triv)
    with assms show ?thesis by simp
  qed (use items in auto)
qed

lemma add_if_none_exist_clause_entries:
  assumes "add_if_none_exist_clause (JObj kvs) = Inr p'" "map_of kvs ''entry'' = Some (JArr es)"
  shows "\<exists>es'. p' = JObj (AList.update ''entry'' (JArr es') kvs)
     \<and> list_all2 (\<lambda>e e'. add_clause_entry e = Inr e') es es'
     \<and> (\<forall>e' \<in> set es'. has_identifier_and_clause e')"
proof -
  from assms obtain es' where loop: "add_clause_loop es = Inr es'"
    and p': "p' = JObj (AList.update ''entry'' (JArr es') kvs)"
    by (auto simp: add_if_none_exist_clause_def and_then_eq_Inr)
  have all2: "list_all2 (\<lambda>e e'. add_clause_entry e = Inr e') es es'"
    using loop by (simp add: add_clause_loop_eq_Inr)
  have "has_identifier_and_clause e'" if "e' \<in> set es'" for e'
  proof -
    from that all2 obtain e where "add_clause_entry e = Inr e'"
      by (auto simp: list_all2_conv_all_nth in_set_conv_nth)
    from add_clause_entry_twice [OF this] show ?thesis
      unfolding has_identifier_and_clause_def by blast
  qed
  with p' all2 show ?thesis by blast
qed


section \<open>Claims about \<^verbatim>\<open>purge_duplicates\<close> and \<^verbatim>\<open>remove_provenance\<close>\<close>

text \<open>
  C1. For a bundle whose \<^verbatim>\<open>entry\<close> is a list of entries that each carry a string
  \<^verbatim>\<open>fullUrl\<close>, \<^verbatim>\<open>purge_duplicates\<close> succeeds and replaces the list by one entry for
  each distinct URL: the last entry with that URL, placed where the URL occurs first.
  The URLs of the new list are the distinct URLs of the old one, each once.
\<close>

theorem purge_duplicates_last_wins:
  assumes "map_of kvs ''entry'' = Some (JArr es)"
    and "map (\<lambda>e. getitem e ''fullUrl'') es = map (\<lambda>u. Inr (JStr u)) us"
  shows "purge_duplicates (JObj kvs) =
           Inr (JObj (AList.update ''entry'' (JArr (map (kept es) (first_occurrences us))) kvs))
     \<and> map (\<lambda>e. getitem e ''fullUrl'') (map (kept es) (first_occurrences us)) =
           map (\<lambda>u. Inr (JStr u)) (first_occurrences us)
     \<and> distinct (first_occurrences us) \<and> set (first_occurrences us) = set us"
proof -
  have "\<forall>u \<in> set (first_occurrences us). getitem (kept es u) ''fullUrl'' = Inr (JStr u)"
    using kept_has_url [OF assms(2)] by (simp add: set_first_occurrences)
  then have "map (\<lambda>e. getitem e ''fullUrl'') (map (kept es) (first_occurrences us)) =
      map (\<lambda>u. Inr (JStr u)) (first_occurrences us)"
    by simp
  then show ?thesis
    using purge_duplicates_str [OF assms]
    by (simp add: distinct_first_occurrences set_first_occurrences)
qed

theorem purge_duplicates_last_wins_witness:
  "purge_duplicates (JObj [(''entry'', JArr
       [JObj [(''fullUrl'', JStr ''a''), (''n'', JInt 1)],
        JObj [(''fullUrl'', JStr ''b''), (''n'', JInt 2)],
        JObj [(''fullUrl'', JStr ''a''), (''n'', JInt 3)]])])
   = Inr (JObj [(''entry'', JArr
       [JObj [(''fullUrl'', JStr ''a''), (''n'', JInt 3)],
        JObj [(''fullUrl'', JStr ''b''), (''n'', JInt 2)]])])"
  using purge_duplicates_last_wins [of
      "[(''entry'', JArr
       [JObj [(''fullUrl'', JStr ''a''), (''n'', JInt 1)],
        JObj [(''fullUrl'', JStr ''b''), (''n'', JInt 2)],
        JObj [(''fullUrl'', JStr ''a''), (''n'', JInt 3)]])]"
      "[JObj [(''fullUrl'', JStr ''a''), (''n'', JInt 1)],
        JObj [(''fullUrl'', JStr ''b''), (''n'', JInt 2)],
        JObj [(''fullUrl'', JStr ''a''), (''n'', JInt 3)]]"
      "[''a'', ''b'', ''a'']"]
  by (simp add: kept_def first_occurrences_def upt_rec)

text \<open>
  C2. Purging twice is purging once: when \<^verbatim>\<open>purge_duplicates\<close> succeeds on a bundle, a
  second call on the result succeeds and changes nothing, so the entries, and with them
  the set of their \<^verbatim>\<open>fullUrl\<close> values, are those of the first call.
\<close>

theorem purge_duplicates_idempotent:
  "purge_duplicates d = Inr d' \<Longrightarrow> purge_duplicates d' = Inr d'"
  by (rule purge_duplicates_twice)

theorem purge_duplicates_idempotent_witness:
  "purge_duplicates (JObj [(''entry'', JArr
       [JObj [(''fullUrl'', JStr ''a''), (''n'', JInt 1)],
        JObj [(''fullUrl'', JBool True)],
        JObj [(''fullUrl'', JStr ''a''), (''n'', JInt 3)],
        JObj [(''fullUrl'', JInt 1)]])])
   = Inr (JObj [(''entry'', JArr
       [JObj [(''fullUrl'', JStr ''a''), (''n'', JInt 3)],
        JObj [(''fullUrl'', JInt 1)]])])
   \<and> purge_duplicates (JObj [(''entry'', JArr
       [JObj [(''fullUrl'', JStr ''a''), (''n'', JInt 3)],
        JObj [(''fullUrl'', JInt 1)]])])
   = Inr (JObj [(''entry'', JArr
       [JObj [(''fullUrl'', JStr ''a''), (''n'', JInt 3)],
        JObj [(''fullUrl'', JInt 1)]])])"
proof -
  have first: "purge_duplicates (JObj [(''entry'', JArr
       [JObj [(''fullUrl'', JStr ''a''), (''n'', JInt 1)],
        JObj [(''fullUrl'', JBool True)],
        JObj [(''fullUrl'', JStr ''a''), (''n'', JInt 3)],
        JObj [(''fullUrl'', JInt 1)]])])
   = Inr (JObj [(''entry'', JArr
       [JObj [(''fullUrl'', JStr ''a''), (''n'', JInt 3)],
        JObj [(''fullUrl'', JInt 1)]])])"
    by (simp add: purge_duplicates_def)
  from first purge_duplicates_idempotent [OF first] show ?thesis
    by (rule conjI)
qed

text \<open>
  C3. For a well-formed bundle whose \<^verbatim>\<open>entry\<close> is a list of entries that each have
  \<^verbatim>\<open>resource.resourceType\<close>, \<^verbatim>\<open>remove_provenance\<close> succeeds and leaves exactly the
  entries whose type is not \<^verbatim>\<open>Provenance\<close>, in their order: the list filtered. No entry
  of the result is a Provenance entry, and each one is an entry of the input.
\<close>

theorem remove_provenance_filters:
  assumes "well_formed (JObj kvs)"
    and "map_of kvs ''entry'' = Some (JArr es)"
    and "\<forall>e \<in> set es. \<exists>t. resource_type_of e = Inr t"
  shows "remove_provenance (JObj kvs) =
           Inr (JObj (AList.update ''entry'' (JArr (filter (\<lambda>e. \<not> is_provenance e) es)) kvs))
     \<and> (\<forall>e \<in> set (filter (\<lambda>e. \<not> is_provenance e) es).
           e \<in> set es \<and> resource_type_of e \<noteq> Inr (JStr ''Provenance''))"
  using remove_provenance_filter [OF assms] by (simp add: is_provenance_def)

theorem remove_provenance_filters_witness:
  "remove_provenance (JObj [(''entry'', JArr
       [JObj [(''resource'', JObj [(''resourceType'', JStr ''Provenance''), (''id'', JInt 1)])],
        JObj [(''resource'', JObj [(''resourceType'', JStr ''Patient'')])],
        JObj [(''resource'', JObj [(''resourceType'', JStr ''Provenance''), (''id'', JBool True)])],
        JObj [(''resource'', JObj [(''resourceType'', JStr ''Encounter'')])]])])
   = Inr (JObj [(''entry'', JArr
       [JObj [(''resource'', JObj [(''resourceType'', JStr ''Patient'')])],
        JObj [(''resource'', JObj [(''resourceType'', JStr ''Encounter'')])]])])"
  using remove_provenance_filters [of
      "[(''entry'', JArr
       [JObj [(''resource'', JObj [(''resourceType'', JStr ''Provenance''), (''id'', JInt 1)])],
        JObj [(''resource'', JObj [(''resourceType'', JStr ''Patient'')])],
        JObj [(''resource'', JObj [(''resourceType'', JStr ''Provenance''), (''id'', JBool True)])],
        JObj [(''resource'', JObj [(''resourceType'', JStr ''Encounter'')])]])]"
      "[JObj [(''resource'', JObj [(''resourceType'', JStr ''Provenance''), (''id'', JInt 1)])],
        JObj [(''resource'', JObj [(''resourceType'', JStr ''Patient'')])],
        JObj [(''resource'', JObj [(''resourceType'', JStr ''Provenance''), (''id'', JBool True)])],
        JObj [(''resource'', JObj [(''resourceType'', JStr ''Encounter'')])]]"]
  by (simp add: is_provenance_def resource_type_of_def)

section \<open>Claims about \<^verbatim>\<open>add_if_none_exist_clause\<close>\<close>

text \<open>
  C5. Take an entry whose \<^verbatim>\<open>resource\<close> and \<^verbatim>\<open>request\<close> are dicts and whose resource
  has a \<^verbatim>\<open>resourceType\<close>. If the resource has no \<^verbatim>\<open>identifier\<close>, or an empty one,
  and an \<^verbatim>\<open>id\<close>, the loop body stores the one-element list with the Synthea system
  and that id under \<^verbatim>\<open>identifier\<close>, and the query built from them under
  \<^verbatim>\<open>request.ifNoneExist\<close>. If the resource has a non-empty identifier list whose first
  element has \<^verbatim>\<open>system\<close> and \<^verbatim>\<open>value\<close>, the resource stays as it is and the query
  is built from that first element. On a bundle whose \<^verbatim>\<open>entry\<close> is a list,
  \<^verbatim>\<open>add_if_none_exist_clause\<close> succeeds exactly when the body succeeds on every entry;
  it replaces each entry by the body's result, and then every entry has a non-empty
  identifier list and a string under \<^verbatim>\<open>request.ifNoneExist\<close>.
\<close>

theorem add_if_none_exist_clause_injects:
  assumes "map_of ekvs ''resource'' = Some (JObj rkvs)"
    and "map_of ekvs ''request'' = Some (JObj qkvs)"
    and "map_of rkvs ''resourceType'' = Some rt"
  shows "(map_of rkvs ''id'' = Some rid \<and>
          (map_of rkvs ''identifier'' = None \<or>
           (\<exists>ids. map_of rkvs ''identifier'' = Some ids \<and> py_len ids = Inr 0)) \<longrightarrow>
          add_clause_entry (JObj ekvs) =
            Inr (JObj (AList.update ''resource''
                   (JObj (AList.update ''identifier'' (synthesized rid) rkvs))
                   (AList.update ''request''
                      (JObj (AList.update ''ifNoneExist''
                         (query_term rt (JStr synthea_system) rid) qkvs)) ekvs))))
    \<and> (map_of rkvs ''identifier'' = Some (JArr (first # others)) \<and>
          getitem first ''system'' = Inr sys \<and> getitem first ''value'' = Inr val \<longrightarrow>
          add_clause_entry (JObj ekvs) =
            Inr (JObj (AList.update ''request''
                   (JObj (AList.update ''ifNoneExist'' (query_term rt sys val) qkvs)) ekvs)))
    \<and> (\<forall>kvs es p'. map_of kvs ''entry'' = Some (JArr es) \<longrightarrow>
          (add_if_none_exist_clause (JObj kvs) = Inr p' \<longleftrightarrow>
             (\<exists>es'. p' = JObj (AList.update ''entry'' (JArr es') kvs)
                \<and> list_all2 (\<lambda>e e'. add_clause_entry e = Inr e') es es'))
          \<and> (add_if_none_exist_clause (JObj kvs) = Inr p' \<longrightarrow>
             (\<exists>es'. p' = JObj (AList.update ''entry'' (JArr es') kvs)
                \<and> (\<forall>e' \<in> set es'. has_identifier_and_clause e'))))"
proof -
  have a: "add_clause_entry (JObj ekvs) =
            Inr (JObj (AList.update ''resource''
                   (JObj (AList.update ''identifier'' (synthesized rid) rkvs))
                   (AList.update ''request''
                      (JObj (AList.update ''ifNoneExist''
                         (query_term rt (JStr synthea_system) rid) qkvs)) ekvs)))"
    if "map_of rkvs ''id'' = Some rid"
      and "map_of rkvs ''identifier'' = None \<or>
           (\<exists>ids. map_of rkvs ''identifier'' = Some ids \<and> py_len ids = Inr 0)"
    using add_clause_entry_synthesize [OF assms that] .
  have b: "add_clause_entry (JObj ekvs) =
            Inr (JObj (AList.update ''request''
                   (JObj (AList.update ''ifNoneExist'' (query_term rt sys val) qkvs)) ekvs))"
    if "map_of rkvs ''identifier'' = Some (JArr (first # others))"
      and "getitem first ''system'' = Inr sys" and "getitem first ''value'' = Inr val"
    using add_clause_entry_existing [OF assms that] .
  have c: "add_if_none_exist_clause (JObj kvs) = Inr p' \<longleftrightarrow>
             (\<exists>es'. p' = JObj (AList.update ''entry'' (JArr es') kvs)
                \<and> list_all2 (\<lambda>e e'. add_clause_entry e = Inr e') es es')"
    if "map_of kvs ''entry'' = Some (JArr es)" for kvs es p'
    using that
    by (auto simp: add_if_none_exist_clause_def and_then_eq_Inr add_clause_loop_eq_Inr)
  have d: "\<exists>es'. p' = JObj (AList.update ''entry'' (JArr es') kvs)
                \<and> (\<forall>e' \<in> set es'. has_identifier_and_clause e')"
    if "map_of kvs ''entry'' = Some (JArr es)" "add_if_none_exist_clause (JObj kvs) = Inr p'"
    for kvs es p'
    using add_if_none_exist_clause_entries [OF that(2,1)] by blast
  from a b c d show ?thesis by blast
qed

theorem add_if_none_exist_clause_injects_witness:
  "add_clause_entry (JObj [(''resource'', JObj [(''resourceType'', JStr ''Patient''), (''id'', JStr ''xyz'')]),
                           (''request'', JObj [(''method'', JStr ''POST'')])])
   = Inr (JObj [(''resource'', JObj [(''resourceType'', JStr ''Patient''), (''id'', JStr ''xyz''),
                   (''identifier'', JArr [JObj [(''system'', JStr ''https://github.com/synthetichealth/synthea''),
                                                (''value'', JStr ''xyz'')]])]),
                (''request'', JObj [(''method'', JStr ''POST''),
                   (''ifNoneExist'',
                    JStr ''Patient?identifier=https://github.com/synthetichealth/synthea|xyz'')])])"
  using add_if_none_exist_clause_injects [of
      "[(''resource'', JObj [(''resourceType'', JStr ''Patient''), (''id'', JStr ''xyz'')]),
        (''request'', JObj [(''method'', JStr ''POST'')])]"
      "[(''resourceType'', JStr ''Patient''), (''id'', JStr ''xyz'')]"
      "[(''method'', JStr ''POST'')]" "JStr ''Patient''" "JStr ''xyz''"]
  by (simp add: synthesized_def query_term_def py_str_def synthea_system_def)

text \<open>
  C10. \<^verbatim>\<open>add_if_none_exist_clause\<close> is idempotent: when it succeeds on a bundle, a second
  call on the result succeeds and changes nothing.
\<close>

theorem add_if_none_exist_clause_idempotent:
  assumes "add_if_none_exist_clause p = Inr p'"
  shows "add_if_none_exist_clause p' = Inr p'"
proof -
  from assms have "add_if_none_exist_clause p' = Inr p'"
    by (rule add_if_none_exist_clause_twice)
  then show ?thesis .
qed

theorem add_if_none_exist_clause_idempotent_witness:
  "add_if_none_exist_clause
     (JObj [(''entry'', JArr [JObj [(''resource'', JObj [(''resourceType'', JStr ''Patient''), (''id'', JStr ''xyz'')]),
                                   (''request'', JObj [])]])])
   = Inr (JObj [(''entry'', JArr [JObj [(''resource'', JObj [(''resourceType'', JStr ''Patient''), (''id'', JStr ''xyz''),
                   (''identifier'', JArr [JObj [(''system'', JStr ''https://github.com/synthetichealth/synthea''),
                                                (''value'', JStr ''xyz'')]])]),
                (''request'', JObj [(''ifNoneExist'',
                    JStr ''Patient?identifier=https://github.com/synthetichealth/synthea|xyz'')])]])])
   \<and> add_if_none_exist_clause
     (JObj [(''entry'', JArr [JObj [(''resource'', JObj [(''resourceType'', JStr ''Patient''), (''id'', JStr ''xyz''),
                   (''identifier'', JArr [JObj [(''system'', JStr ''https://github.com/synthetichealth/synthea''),
                                                (''value'', JStr ''xyz'')]])]),
                (''request'', JObj [(''ifNoneExist'',
                    JStr ''Patient?identifier=https://github.com/synthetichealth/synthea|xyz'')])]])])
   = Inr (JObj [(''entry'', JArr [JObj [(''resource'', JObj [(''resourceType'', JStr ''Patient''), (''id'', JStr ''xyz''),
                   (''identifier'', JArr [JObj [(''system'', JStr ''https://github.com/synthetichealth/synthea''),
                                                (''value'', JStr ''xyz'')]])]),
                (''request'', JObj [(''ifNoneExist'',
                    JStr ''Patient?identifier=https://github.com/synthetichealth/synthea|xyz'')])]])])"
proof -
  have first: "add_if_none_exist_clause
     (JObj [(''entry'', JArr [JObj [(''resource'', JObj [(''resourceType'', JStr ''Patient''), (''id'', JStr ''xyz'')]),
                                   (''request'', JObj [])]])])
   = Inr (JObj [(''entry'', JArr [JObj [(''resource'', JObj [(''resourceType'', JStr ''Patient''), (''id'', JStr ''xyz''),
                   (''identifier'', JArr [JObj [(''system'', JStr ''https://github.com/synthetichealth/synthea''),
                                                (''value'', JStr ''xyz'')]])]),
                (''request'', JObj [(''ifNoneExist'',
                    JStr ''Patient?identifier=https://github.com/synthetichealth/synthea|xyz'')])]])])"
    by (simp add: add_if_none_exist_clause_def add_clause_entry_def py_str_def synthea_system_def)
  from first add_if_none_exist_clause_idempotent [OF first] show ?thesis
    by (rule conjI)
qed

section \<open>Claims about the batch uploader\<close>

text \<open>
  C7. In the patient phase a failed request is caught for the one file, reported on the
  console with the file's name, and the loop goes on: when the hospital and
  practitioner uploads succeed and every patient upload either succeeds or raises a
  \<^verbatim>\<open>RequestException\<close>, every file is handed to \<^verbatim>\<open>upload_payload\<close>, one line is printed
  for each failed patient file, and the run ends without an exception. With three
  patient files of which the second fails, the third is still uploaded.
\<close>

theorem patient_failures_do_not_abort:
  assumes "\<forall>f \<in> set hospital \<union> set practitioner. upload_payload w f = Inr ()"
    and "\<forall>f \<in> set (patient_payloads hospital practitioner all_files).
           upload_payload w f = Inr () \<or> upload_payload w f = Inl RequestException"
  shows "main w hospital practitioner all_files =
     \<lparr>uploads = hospital @ practitioner @ patient_payloads hospital practitioner all_files,
      console = failed_lines w (patient_payloads hospital practitioner all_files),
      raised = None\<rparr>"
proof -
  have h: "\<forall>f \<in> set hospital. upload_payload w f = Inr ()"
    and p: "\<forall>f \<in> set practitioner. upload_payload w f = Inr ()"
    using assms(1) by simp_all
  show ?thesis
    by (simp add: main_def Let_def upload_all_ok [OF h] upload_all_ok [OF p]
        upload_patients_tolerant [OF assms(2)])
qed

theorem patient_failures_do_not_abort_witness:
  "main demo_world [''h''] [] [''p3'', ''h'', ''p1'', ''p2''] =
     \<lparr>uploads = [''h'', ''p1'', ''p2'', ''p3''], console = [''Failed: p2''], raised = None\<rparr>"
  using patient_failures_do_not_abort [of "[''h'']" "[]" demo_world "[''p3'', ''h'', ''p1'', ''p2'']"]
  by (simp add: patient_payloads_demo upload_payload_def demo_world_def preprocess_empty_bundle failed_lines_def)


text \<open>
  C8. An exception that \<^verbatim>\<open>preprocess_payload\<close> raises on a loaded document, such as the
  \<^verbatim>\<open>KeyError\<close> for a missing field, is not a \<^verbatim>\<open>RequestException\<close>: it leaves
  \<^verbatim>\<open>upload_payload\<close> and ends the run at that file in each of the three phases, the
  patient phase included. No later file is uploaded.
\<close>

theorem malformed_input_terminates_run:
  assumes "read_json w f = Inr doc" and "preprocess_payload doc = Inl e"
  shows "upload_payload w f = Inl (Raised e)
    \<and> ((\<forall>g \<in> set before. upload_payload w g = Inr ()) \<longrightarrow>
         main w (before @ f # later) practitioner all_files =
           \<lparr>uploads = before @ [f], console = [], raised = Some (Raised e)\<rparr>)
    \<and> ((\<forall>g \<in> set hospital \<union> set before. upload_payload w g = Inr ()) \<longrightarrow>
         main w hospital (before @ f # later) all_files =
           \<lparr>uploads = hospital @ before @ [f], console = [], raised = Some (Raised e)\<rparr>)
    \<and> ((\<forall>g \<in> set hospital \<union> set practitioner. upload_payload w g = Inr ()) \<and>
         patient_payloads hospital practitioner all_files = before @ f # later \<and>
         (\<forall>g \<in> set before. upload_payload w g = Inr () \<or> upload_payload w g = Inl RequestException) \<longrightarrow>
         main w hospital practitioner all_files =
           \<lparr>uploads = hospital @ practitioner @ before @ [f], console = failed_lines w before,
            raised = Some (Raised e)\<rparr>)"
proof -
  have up: "upload_payload w f = Inl (Raised e)"
    using assms by (simp add: upload_payload_def)
  have hosp: "main w (before @ f # later) practitioner all_files =
           \<lparr>uploads = before @ [f], console = [], raised = Some (Raised e)\<rparr>"
    if "\<forall>g \<in> set before. upload_payload w g = Inr ()"
    using upload_all_raises [OF that up] by (simp add: main_def Let_def)
  have prac: "main w hospital (before @ f # later) all_files =
           \<lparr>uploads = hospital @ before @ [f], console = [], raised = Some (Raised e)\<rparr>"
    if "\<forall>g \<in> set hospital \<union> set before. upload_payload w g = Inr ()"
  proof -
    from that have h: "\<forall>g \<in> set hospital. upload_payload w g = Inr ()"
      and b: "\<forall>g \<in> set before. upload_payload w g = Inr ()" by simp_all
    show ?thesis
      by (simp add: main_def Let_def upload_all_ok [OF h] upload_all_raises [OF b up])
  qed
  have pat: "main w hospital practitioner all_files =
           \<lparr>uploads = hospital @ practitioner @ before @ [f], console = failed_lines w before,
            raised = Some (Raised e)\<rparr>"
    if "\<forall>g \<in> set hospital \<union> set practitioner. upload_payload w g = Inr ()"
      and "patient_payloads hospital practitioner all_files = before @ f # later"
      and "\<forall>g \<in> set before. upload_payload w g = Inr () \<or> upload_payload w g = Inl RequestException"
  proof -
    from that(1) have h: "\<forall>g \<in> set hospital. upload_payload w g = Inr ()"
      and p: "\<forall>g \<in> set practitioner. upload_payload w g = Inr ()" by simp_all
    have "Raised e \<noteq> RequestException" by simp
    from upload_patients_raises [OF that(3) up this] show ?thesis
      by (simp add: main_def Let_def upload_all_ok [OF h] upload_all_ok [OF p] that(2))
  qed
  from up hosp prac pat show ?thesis by blast
qed

theorem malformed_input_terminates_run_witness:
  "main broken_world [''h''] [] [''p3'', ''h'', ''p1'', ''p2''] =
     \<lparr>uploads = [''h'', ''p1'', ''p2''], console = [''Failed: p1''],
      raised = Some (Raised (KeyError (JStr ''entry'')))\<rparr>"
proof -
  have r: "read_json broken_world ''p2'' = Inr (JObj [])"
    by (simp add: broken_world_def)
  have e: "preprocess_payload (JObj []) = Inl (KeyError (JStr ''entry''))"
    by (simp add: missing_entry_raises)
  have ok: "upload_payload broken_world ''h'' = Inr ()"
    and p1: "upload_payload broken_world ''p1'' = Inl RequestException"
    by (simp_all add: upload_payload_def broken_world_def preprocess_empty_bundle)
  from malformed_input_terminates_run [OF r e, of "[''p1'']" "[''p3'']" "[]" "[''p3'', ''h'', ''p1'', ''p2'']" "[''h'']"]
  show ?thesis
    by (simp add: patient_payloads_demo ok p1 failed_lines_def)
qed


section \<open>Claim about mutation and rebinding\<close>

text \<open>
  C9. \<^verbatim>\<open>standardize_references\<close> leaves the object it is given as it was and returns a new
  object that holds the rewritten document. The other three transforms change the
  object they are given and create none. In \<^verbatim>\<open>preprocess_payload\<close> the variable is
  rebound to the new object: the reference it returns is not the one it was given, the
  object returned holds the result of all four transforms, and the object passed in
  holds the result of the first two only.
\<close>

theorem standardize_references_returns_new_object:
  assumes "payload < length h"
  shows "(\<forall>h' r. fresh standardize_references payload h = Inr (h', r) \<longrightarrow>
            r \<noteq> payload \<and> h' ! payload = h ! payload \<and> take (length h) h' = h
            \<and> standardize_references (h ! payload) = Inr (h' ! r))
    \<and> (\<forall>f h'. f \<in> {purge_duplicates, remove_provenance, add_if_none_exist_clause} \<and>
            in_place f payload h = Inr h' \<longrightarrow>
            length h' = length h \<and> f (h ! payload) = Inr (h' ! payload)
            \<and> (\<forall>q < length h. q \<noteq> payload \<longrightarrow> h' ! q = h ! q))
    \<and> (\<forall>h' r. preprocess_payload_heap payload h = Inr (h', r) \<longrightarrow>
            r \<noteq> payload \<and> preprocess_payload (h ! payload) = Inr (h' ! r)
            \<and> (\<exists>b. purge_duplicates (h ! payload) = Inr b \<and> remove_provenance b = Inr (h' ! payload)))"
proof -
  have a: "r \<noteq> payload \<and> h' ! payload = h ! payload \<and> take (length h) h' = h
            \<and> standardize_references (h ! payload) = Inr (h' ! r)"
    if "fresh standardize_references payload h = Inr (h', r)" for h' r
  proof -
    from that obtain v where "standardize_references (h ! payload) = Inr v" "h' = h @ [v]" "r = length h"
      by (auto simp: fresh_eq_Inr)
    then show ?thesis using assms by (simp add: nth_append)
  qed
  have b: "length h' = length h \<and> f (h ! payload) = Inr (h' ! payload)
            \<and> (\<forall>q < length h. q \<noteq> payload \<longrightarrow> h' ! q = h ! q)"
    if "in_place f payload h = Inr h'" for f h'
  proof -
    from that obtain v where "f (h ! payload) = Inr v" "h' = h[payload := v]"
      by (auto simp: in_place_eq_Inr)
    then show ?thesis using assms by simp
  qed
  have c: "r \<noteq> payload \<and> preprocess_payload (h ! payload) = Inr (h' ! r)
            \<and> (\<exists>b. purge_duplicates (h ! payload) = Inr b \<and> remove_provenance b = Inr (h' ! payload))"
    if "preprocess_payload_heap payload h = Inr (h', r)" for h' r
  proof -
    from that obtain b1 b2 b3 b4 where
      b1: "purge_duplicates (h ! payload) = Inr b1" and
      b2: "remove_provenance (h[payload := b1] ! payload) = Inr b2" and
      b3: "standardize_references (h[payload := b1, payload := b2] ! payload) = Inr b3" and
      b4: "add_if_none_exist_clause ((h[payload := b1, payload := b2] @ [b3]) ! length h) = Inr b4" and
      h': "h' = (h[payload := b1, payload := b2] @ [b3])[length h := b4]" and r: "r = length h"
      unfolding preprocess_payload_heap_def
      by (auto simp: and_then_eq_Inr in_place_eq_Inr fresh_eq_Inr)
    have "preprocess_payload (h ! payload) = Inr b4"
      using b1 b2 b3 b4 assms by (simp add: preprocess_payload_def nth_append)
    moreover have "h' ! payload = b2" using h' assms by (simp add: nth_append nth_list_update)
    ultimately show ?thesis
      using b1 b2 h' r assms by (simp add: nth_append)
  qed
  from a b c show ?thesis by blast
qed


end
